theory Spec2Isabelle
  imports Complex_Main
begin

section \<open>The scalar type\<close>

text \<open>
  The evaluator is a template over a scalar type \<open>T\<close>, instantiated on \<open>double\<close> and on
  the automatic-differentiation scalar built on it; the model is the instantiation on
  \<open>double\<close>. A scalar is a real number or one of the three IEEE-754 special values. The
  two zeros of IEEE-754 are one value \<open>Fin 0\<close>; a zero divisor counts as \<open>+0\<close>, which is
  what the norms this program divides by are when they vanish.
\<close>

datatype scalar = Fin real | PInf | NInf | NaN

subsection \<open>Rounding to binary64\<close>

text \<open>
  Every arithmetic operation of a \<open>double\<close> returns the exact result rounded to the
  nearest binary64 number, ties to the even significand. A binary64 number is
  \<open>m * 2 ^ e\<close> with an integer \<open>m\<close> below \<open>2 ^ 53\<close> in magnitude and \<open>- 1074 \<le> e \<le> 971\<close>.
  For \<open>a > 0\<close>, the spacing of the binary64 numbers around \<open>a\<close> is \<open>2 ^ ulp_exponent a\<close>:
  52 binary places below the leading bit of \<open>a\<close>, and never below \<open>2 ^ - 1074\<close>, the
  spacing of the subnormal numbers. A result that rounds to \<open>2 ^ 1024\<close> or more overflows
  to an infinity; a result below half the smallest subnormal number rounds to zero.
\<close>

definition ulp_exponent :: "real \<Rightarrow> int" where
  "ulp_exponent a = max (\<lfloor>log 2 a\<rfloor> - 52) (- 1074)"

definition round_half_even :: "real \<Rightarrow> int" where
  "round_half_even q =
     (let f = \<lfloor>q\<rfloor>
      in if q - of_int f < 1/2 then f
         else if 1/2 < q - of_int f then f + 1
         else if even f then f else f + 1)"

definition round_magnitude :: "real \<Rightarrow> real" where
  "round_magnitude a =
     of_int (round_half_even (a / 2 powi ulp_exponent a)) * 2 powi ulp_exponent a"

definition round_double :: "real \<Rightarrow> scalar" where
  "round_double x =
     (if x = 0 then Fin 0
      else if 0 < x then
        (if 2 ^ 1024 \<le> round_magnitude x then PInf else Fin (round_magnitude x))
      else
        (if 2 ^ 1024 \<le> round_magnitude (- x) then NInf else Fin (- round_magnitude (- x))))"

subsection \<open>Arithmetic\<close>

text \<open>
  On finite operands an operation rounds its exact result; the special values follow
  IEEE-754: \<open>0/0\<close>, \<open>\<infinity> - \<infinity>\<close>, \<open>0 * \<infinity>\<close>, \<open>\<infinity>/\<infinity>\<close> and the square root of a negative
  number are \<open>NaN\<close>, and \<open>NaN\<close> propagates through every operation. Negation is exact.
\<close>

instantiation scalar :: "{zero, plus, uminus, minus, times, inverse}"
begin

definition zero_scalar :: scalar where
  "zero_scalar = Fin 0"

fun plus_scalar :: "scalar \<Rightarrow> scalar \<Rightarrow> scalar" where
  "plus_scalar (Fin x) (Fin y) = round_double (x + y)"
| "plus_scalar (Fin x) PInf = PInf"
| "plus_scalar (Fin x) NInf = NInf"
| "plus_scalar PInf (Fin y) = PInf"
| "plus_scalar PInf PInf = PInf"
| "plus_scalar PInf NInf = NaN"
| "plus_scalar NInf (Fin y) = NInf"
| "plus_scalar NInf PInf = NaN"
| "plus_scalar NInf NInf = NInf"
| "plus_scalar NaN b = NaN"
| "plus_scalar a NaN = NaN"

fun uminus_scalar :: "scalar \<Rightarrow> scalar" where
  "uminus_scalar (Fin x) = Fin (- x)"
| "uminus_scalar PInf = NInf"
| "uminus_scalar NInf = PInf"
| "uminus_scalar NaN = NaN"

definition minus_scalar :: "scalar \<Rightarrow> scalar \<Rightarrow> scalar" where
  "minus_scalar a b = a + (- b)"

fun times_scalar :: "scalar \<Rightarrow> scalar \<Rightarrow> scalar" where
  "times_scalar (Fin x) (Fin y) = round_double (x * y)"
| "times_scalar (Fin x) PInf = (if x = 0 then NaN else if 0 < x then PInf else NInf)"
| "times_scalar (Fin x) NInf = (if x = 0 then NaN else if 0 < x then NInf else PInf)"
| "times_scalar PInf (Fin y) = (if y = 0 then NaN else if 0 < y then PInf else NInf)"
| "times_scalar NInf (Fin y) = (if y = 0 then NaN else if 0 < y then NInf else PInf)"
| "times_scalar PInf PInf = PInf"
| "times_scalar PInf NInf = NInf"
| "times_scalar NInf PInf = NInf"
| "times_scalar NInf NInf = PInf"
| "times_scalar NaN b = NaN"
| "times_scalar a NaN = NaN"

fun divide_scalar :: "scalar \<Rightarrow> scalar \<Rightarrow> scalar" where
  "divide_scalar (Fin x) (Fin y) =
     (if y \<noteq> 0 then round_double (x / y)
      else if x = 0 then NaN else if 0 < x then PInf else NInf)"
| "divide_scalar (Fin x) PInf = Fin 0"
| "divide_scalar (Fin x) NInf = Fin 0"
| "divide_scalar PInf (Fin y) = (if 0 \<le> y then PInf else NInf)"
| "divide_scalar NInf (Fin y) = (if 0 \<le> y then NInf else PInf)"
| "divide_scalar PInf PInf = NaN"
| "divide_scalar PInf NInf = NaN"
| "divide_scalar NInf PInf = NaN"
| "divide_scalar NInf NInf = NaN"
| "divide_scalar NaN b = NaN"
| "divide_scalar a NaN = NaN"

definition inverse_scalar :: "scalar \<Rightarrow> scalar" where
  "inverse_scalar a = divide (Fin 1) a"

instance ..

end

text \<open>\<open>std::sqrt\<close> on a scalar: the exact root, rounded.\<close>

fun sqrt_scalar :: "scalar \<Rightarrow> scalar" where
  "sqrt_scalar (Fin x) = (if 0 \<le> x then round_double (sqrt x) else NaN)"
| "sqrt_scalar PInf = PInf"
| "sqrt_scalar NInf = NaN"
| "sqrt_scalar NaN = NaN"

section \<open>Eigen vectors and matrices\<close>

text \<open>
  A \<open>VectorX<T>\<close> (and a \<open>Vector3d\<close>) is the list of its coefficients; a \<open>MatrixX<T>\<close> is
  the list of its rows. The operations are those of Eigen that the evaluator calls. A
  sum is accumulated from the first coefficient on, in index order, each addition
  rounded, as Eigen's reduction does when it is not vectorised; the sum of no
  coefficient is \<open>0\<close>. Eigen asserts that the operands of a difference or a product have
  matching sizes; the operations of the model pair the coefficients up to the shorter
  operand, and the theorems state the sizes they rely on.
\<close>

type_synonym VectorX = "scalar list"
type_synonym MatrixX = "scalar list list"

fun sum_scalars :: "scalar list \<Rightarrow> scalar" where
  "sum_scalars [] = 0"
| "sum_scalars (x # xs) = foldl (+) x xs"

definition dot :: "VectorX \<Rightarrow> VectorX \<Rightarrow> scalar" where
  "dot a b = sum_scalars (map2 (*) a b)"

definition squaredNorm :: "VectorX \<Rightarrow> scalar" where
  "squaredNorm a = dot a a"

definition norm_vec :: "VectorX \<Rightarrow> scalar" where
  "norm_vec a = sqrt_scalar (squaredNorm a)"

definition vec_minus :: "VectorX \<Rightarrow> VectorX \<Rightarrow> VectorX" where
  "vec_minus a b = map2 (-) a b"

definition mat_minus :: "MatrixX \<Rightarrow> MatrixX \<Rightarrow> MatrixX" where
  "mat_minus A B = map2 vec_minus A B"

text \<open>\<open>a.transpose() * J\<close>: a row vector times a matrix, one dot product per column.\<close>

definition transpose_times :: "VectorX \<Rightarrow> MatrixX \<Rightarrow> VectorX" where
  "transpose_times a J = map (dot a) (transpose J)"

text \<open>\<open>J * v\<close>: a matrix times a column vector, one dot product per row.\<close>

definition mat_times_vec :: "MatrixX \<Rightarrow> VectorX \<Rightarrow> VectorX" where
  "mat_times_vec J v = map (\<lambda>r. dot r v) J"

definition vec_div :: "VectorX \<Rightarrow> scalar \<Rightarrow> VectorX" where
  "vec_div a s = map (\<lambda>x. x / s) a"

section \<open>The multibody plant, as the evaluator sees it\<close>

text \<open>
  The plant belongs to the dynamics engine; the evaluator only calls it. It is a record
  of the five queries the evaluator makes, each a function of the context. The argument
  order is the engine's: \<open>CalcPointsPositions context frame_B p_BQ frame_A\<close> gives the
  position in \<open>frame_A\<close> of the point with coordinates \<open>p_BQ\<close> in \<open>frame_B\<close>;
  \<open>CalcJacobianTranslationalVelocity context wrt frame_B p_BoBi_B frame_A frame_E\<close> gives
  the Jacobian of the velocity, measured in \<open>frame_A\<close> and expressed in \<open>frame_E\<close>, of the
  point fixed to \<open>frame_B\<close> at \<open>p_BoBi_B\<close>; \<open>CalcBiasTranslationalAcceleration\<close> stands for
  \<open>CalcBiasSpatialAcceleration(...).translational()\<close> with the same arguments.
\<close>

datatype JacobianWrtVariable = kQDot | kV

record ('c, 'f) MultibodyPlant =
  num_velocities :: nat
  world_frame :: 'f
  CalcPointsPositions :: "'c \<Rightarrow> 'f \<Rightarrow> VectorX \<Rightarrow> 'f \<Rightarrow> VectorX"
  CalcJacobianTranslationalVelocity ::
    "'c \<Rightarrow> JacobianWrtVariable \<Rightarrow> 'f \<Rightarrow> VectorX \<Rightarrow> 'f \<Rightarrow> 'f \<Rightarrow> MatrixX"
  CalcBiasTranslationalAcceleration ::
    "'c \<Rightarrow> JacobianWrtVariable \<Rightarrow> 'f \<Rightarrow> VectorX \<Rightarrow> 'f \<Rightarrow> 'f \<Rightarrow> VectorX"
  GetVelocities :: "'c \<Rightarrow> VectorX"

section \<open>The distance evaluator\<close>

text \<open>
  Modelled from the spec: the base class \<open>KinematicEvaluator<T>\<close>, whose declaration is not
  among the sources. It holds the reference to the plant that \<open>plant()\<close> reads and the
  number of rows the evaluator contributes (the specification's \<open>length\<close>, here
  \<open>evaluator_length\<close>), both given to its constructor and never changed afterwards. They
  are the first two fields of the record; the others are the fields of
  \<open>DistanceEvaluator<T>\<close>. The fields \<open>pt_A_\<close>, \<open>frame_A_\<close>, \<open>pt_B_\<close>, \<open>frame_B_\<close> and
  \<open>distance_\<close> of the source lose their trailing underscore, which an Isabelle name cannot
  end with.
\<close>

record ('c, 'f) DistanceEvaluator =
  plant :: "('c, 'f) MultibodyPlant"
  evaluator_length :: nat
  pt_A :: VectorX
  frame_A :: 'f
  pt_B :: VectorX
  frame_B :: 'f
  distance :: scalar

text \<open>The constructor: the base class is built with the plant and the length 1.\<close>

definition DistanceEvaluator ::
  "('c, 'f) MultibodyPlant \<Rightarrow> VectorX \<Rightarrow> 'f \<Rightarrow> VectorX \<Rightarrow> 'f \<Rightarrow> scalar
    \<Rightarrow> ('c, 'f) DistanceEvaluator" where
  "DistanceEvaluator plant0 pt_A0 frame_A0 pt_B0 frame_B0 distance0 =
     \<lparr> plant = plant0, evaluator_length = 1,
       pt_A = pt_A0, frame_A = frame_A0, pt_B = pt_B0, frame_B = frame_B0,
       distance = distance0 \<rparr>"

definition EvalFull :: "('c, 'f) DistanceEvaluator \<Rightarrow> 'c \<Rightarrow> VectorX" where
  "EvalFull ev ctxt =
     (let pt_A_B = CalcPointsPositions (plant ev) ctxt (frame_A ev) (pt_A ev) (frame_B ev);
          rel_pos = vec_minus pt_A_B (pt_B ev);
          difference = [norm_vec rel_pos - distance ev]
      in difference)"

definition EvalFullJacobian :: "('c, 'f) DistanceEvaluator \<Rightarrow> 'c \<Rightarrow> MatrixX" where
  "EvalFullJacobian ev ctxt =
     (let pt_A_B = CalcPointsPositions (plant ev) ctxt (frame_A ev) (pt_A ev) (frame_B ev);
          rel_pos = vec_minus pt_A_B (pt_B ev);
          J_A = CalcJacobianTranslationalVelocity (plant ev) ctxt kV
                  (frame_A ev) (pt_A ev) (frame_B ev) (frame_B ev)
      in [vec_div (transpose_times rel_pos J_A) (norm_vec rel_pos)])"

definition EvalFullJacobianDotTimesV :: "('c, 'f) DistanceEvaluator \<Rightarrow> 'c \<Rightarrow> VectorX" where
  "EvalFullJacobianDotTimesV ev ctxt =
     (let world = world_frame (plant ev);
          pt_A_world = CalcPointsPositions (plant ev) ctxt (frame_A ev) (pt_A ev) world;
          pt_B_world = CalcPointsPositions (plant ev) ctxt (frame_B ev) (pt_B ev) world;
          rel_pos = vec_minus pt_A_world pt_B_world;
          J_A = CalcJacobianTranslationalVelocity (plant ev) ctxt kV
                  (frame_A ev) (pt_A ev) world world;
          J_B = CalcJacobianTranslationalVelocity (plant ev) ctxt kV
                  (frame_B ev) (pt_B ev) world world;
          J_rel = mat_minus J_A J_B;
          J_A_dot_times_v = CalcBiasTranslationalAcceleration (plant ev) ctxt kV
                              (frame_A ev) (pt_A ev) world world;
          J_B_dot_times_v = CalcBiasTranslationalAcceleration (plant ev) ctxt kV
                              (frame_B ev) (pt_B ev) world world;
          J_rel_dot_times_v = vec_minus J_A_dot_times_v J_B_dot_times_v;
          phi = norm_vec rel_pos;
          J = vec_div (transpose_times rel_pos J_rel) phi;
          phidot = dot J (GetVelocities (plant ev) ctxt);
          J_rel_v = mat_times_vec J_rel (GetVelocities (plant ev) ctxt);
          J_dot_times_v =
            [squaredNorm J_rel_v / phi
               + dot rel_pos J_rel_dot_times_v / phi
               - phidot * dot rel_pos J_rel_v / (phi * phi)]
      in J_dot_times_v)"

text \<open>
  The local \<open>J\<close> of \<open>EvalFullJacobianDotTimesV\<close>, the Jacobian of the whole constraint
  computed in the world frame, as a function of its own: the same calls and the same
  arithmetic, up to the line that defines \<open>J\<close>.
\<close>

definition EvalFullJacobianDotTimesV_J :: "('c, 'f) DistanceEvaluator \<Rightarrow> 'c \<Rightarrow> VectorX" where
  "EvalFullJacobianDotTimesV_J ev ctxt =
     (let world = world_frame (plant ev);
          pt_A_world = CalcPointsPositions (plant ev) ctxt (frame_A ev) (pt_A ev) world;
          pt_B_world = CalcPointsPositions (plant ev) ctxt (frame_B ev) (pt_B ev) world;
          rel_pos = vec_minus pt_A_world pt_B_world;
          J_A = CalcJacobianTranslationalVelocity (plant ev) ctxt kV
                  (frame_A ev) (pt_A ev) world world;
          J_B = CalcJacobianTranslationalVelocity (plant ev) ctxt kV
                  (frame_B ev) (pt_B ev) world world;
          J_rel = mat_minus J_A J_B;
          phi = norm_vec rel_pos;
          J = vec_div (transpose_times rel_pos J_rel) phi
      in J)"

section \<open>Finite data\<close>

text \<open>
  A vector or matrix all of whose coefficients are finite is the image of a list of reals.
  The theorems below speak about such inputs through these two injections.
\<close>

definition fin_vec :: "real list \<Rightarrow> VectorX" where
  "fin_vec xs = map Fin xs"

definition fin_mat :: "real list list \<Rightarrow> MatrixX" where
  "fin_mat J = map fin_vec J"

section \<open>The formulas of the specification, over the reals\<close>

definition Euclidean_norm :: "real list \<Rightarrow> real" where
  "Euclidean_norm d = sqrt (\<Sum>i<length d. (d ! i)\<^sup>2)"

text \<open>
  The residual: point A in frame B's coordinates, minus point B, Euclidean norm, minus
  the target distance.
\<close>

definition residual_spec :: "real list \<Rightarrow> real list \<Rightarrow> real \<Rightarrow> real" where
  "residual_spec pAB pB target = Euclidean_norm (map2 (-) pAB pB) - target"

text \<open>The dot product of two real vectors.\<close>

definition rdot :: "real list \<Rightarrow> real list \<Rightarrow> real" where
  "rdot xs ys = sum_list (map2 (*) xs ys)"

text \<open>
  The Jacobian: \<open>rel\<^sup>T \<cdot> J_rel / \<parallel>rel\<parallel>\<close>, with \<open>rel\<close> the relative position of A minus B and
  \<open>J_rel = J_A - J_B\<close> the difference of the two points' 3 by \<open>nv\<close> Jacobians, entry by
  entry.
\<close>

definition Jacobian_spec ::
  "real list \<Rightarrow> real list list \<Rightarrow> real list list \<Rightarrow> nat \<Rightarrow> real list" where
  "Jacobian_spec rel J_A J_B nv =
     map (\<lambda>j. (\<Sum>i<3. rel ! i * (J_A ! i ! j - J_B ! i ! j)) / Euclidean_norm rel) [0..<nv]"

text \<open>
  The bias term: \<open>\<parallel>J_rel\<cdot>v\<parallel>\<^sup>2/\<phi> + rel\<^sup>T\<cdot>(a_A - a_B)/\<phi> - \<phi>dot\<cdot>rel\<^sup>T\<cdot>(J_rel\<cdot>v)/\<phi>\<^sup>2\<close>, with
  \<open>\<phi> = \<parallel>rel\<parallel>\<close> and \<open>\<phi>dot = ((rel\<^sup>T\<cdot>J_rel)/\<phi>)\<cdot>v\<close>.
\<close>

definition bias_spec ::
  "real list \<Rightarrow> real list list \<Rightarrow> real list list \<Rightarrow> real list \<Rightarrow> real list \<Rightarrow> real list
    \<Rightarrow> real" where
  "bias_spec rel J_A J_B a_A a_B v =
     (let nv = length v;
          phi = Euclidean_norm rel;
          J_rel = (\<lambda>i j. J_A ! i ! j - J_B ! i ! j);
          J_rel_v = (\<lambda>i. \<Sum>j<nv. J_rel i j * v ! j);
          phidot = (\<Sum>j<nv. ((\<Sum>i<3. rel ! i * J_rel i j) / phi) * v ! j)
      in (\<Sum>i<3. (J_rel_v i)\<^sup>2) / phi
           + (\<Sum>i<3. rel ! i * (a_A ! i - a_B ! i)) / phi
           - phidot * (\<Sum>i<3. rel ! i * J_rel_v i) / phi\<^sup>2)"

section \<open>Rigid frames\<close>

text \<open>
  What the dynamics engine guarantees about a change of frame, over the reals. A frame has
  a pose in the world: an orthonormal matrix, whose columns are the frame's axes in world
  coordinates, and the world position of its origin. Matrices are lists of rows.
\<close>

definition mat_vec :: "real list list \<Rightarrow> real list \<Rightarrow> real list" where
  "mat_vec M x = map (\<lambda>r. rdot r x) M"

definition mat_mul :: "real list list \<Rightarrow> real list list \<Rightarrow> real list list" where
  "mat_mul M N = map (\<lambda>r. map (rdot r) (transpose N)) M"

definition orthonormal :: "real list list \<Rightarrow> bool" where
  "orthonormal R \<longleftrightarrow>
     length R = 3 \<and> list_all (\<lambda>r. length r = 3) R
     \<and> mat_mul R (transpose R) = [[1, 0, 0], [0, 1, 0], [0, 0, 1]]
     \<and> mat_mul (transpose R) R = [[1, 0, 0], [0, 1, 0], [0, 0, 1]]"

definition cross :: "real list \<Rightarrow> real list \<Rightarrow> real list" where
  "cross x y = [x ! 1 * y ! 2 - x ! 2 * y ! 1,
                x ! 2 * y ! 0 - x ! 0 * y ! 2,
                x ! 0 * y ! 1 - x ! 1 * y ! 0]"

definition column :: "nat \<Rightarrow> real list list \<Rightarrow> real list" where
  "column j J = map (\<lambda>r. r ! j) J"

type_synonym pose = "real list list \<times> real list"

fun to_world :: "pose \<Rightarrow> real list \<Rightarrow> real list" where
  "to_world (R, offset) p = map2 (+) (mat_vec R p) offset"

fun from_world :: "pose \<Rightarrow> real list \<Rightarrow> real list" where
  "from_world (R, offset) x = mat_vec (transpose R) (map2 (-) x offset)"

section \<open>Two plants to evaluate on\<close>

text \<open>
  The real part of a finite scalar; the plants below take the coordinates of a point
  through it and answer in exact reals.
\<close>

fun real_part :: "scalar \<Rightarrow> real" where
  "real_part (Fin x) = x"
| "real_part PInf = 0"
| "real_part NInf = 0"
| "real_part NaN = 0"

subsection \<open>Two point masses\<close>

text \<open>
  The smallest plant with two moving frames: two point masses that translate freely in
  the world, with six generalized velocities (those of A, then those of B). No frame
  rotates, so the coordinates of a point in two frames differ by the offset of the two
  origins, the Jacobian of a point of frame \<open>F\<close> measured in frame \<open>G\<close> selects the
  velocities of \<open>F\<close> minus those of \<open>G\<close>, and every bias acceleration is zero. The
  context holds the two positions and the velocities.
\<close>

datatype frame = World | Body_A | Body_B

record point_mass_context =
  position_A :: "real list"
  position_B :: "real list"
  velocities :: "real list"

fun origin :: "point_mass_context \<Rightarrow> frame \<Rightarrow> real list" where
  "origin c World = [0, 0, 0]"
| "origin c Body_A = position_A c"
| "origin c Body_B = position_B c"

fun selector :: "frame \<Rightarrow> real list list" where
  "selector World = [[0, 0, 0, 0, 0, 0], [0, 0, 0, 0, 0, 0], [0, 0, 0, 0, 0, 0]]"
| "selector Body_A = [[1, 0, 0, 0, 0, 0], [0, 1, 0, 0, 0, 0], [0, 0, 1, 0, 0, 0]]"
| "selector Body_B = [[0, 0, 0, 1, 0, 0], [0, 0, 0, 0, 1, 0], [0, 0, 0, 0, 0, 1]]"

definition point_mass_plant :: "(point_mass_context, frame) MultibodyPlant" where
  "point_mass_plant =
     \<lparr> num_velocities = 6,
       world_frame = World,
       CalcPointsPositions = (\<lambda>c F p G.
         fin_vec (map2 (+) (map real_part p) (map2 (-) (origin c F) (origin c G)))),
       CalcJacobianTranslationalVelocity = (\<lambda>c w F p G E.
         fin_mat (map2 (map2 (-)) (selector F) (selector G))),
       CalcBiasTranslationalAcceleration = (\<lambda>c w F p G E. fin_vec [0, 0, 0]),
       GetVelocities = (\<lambda>c. fin_vec (velocities c)) \<rparr>"

definition at_rest :: "real list \<Rightarrow> real list \<Rightarrow> point_mass_context" where
  "at_rest a b = \<lparr> position_A = a, position_B = b, velocities = [0, 0, 0, 0, 0, 0] \<rparr>"

subsection \<open>One revolute joint\<close>

text \<open>
  A plant with a rotating frame: body A is welded to the world, body B turns about the
  world's z axis through the world's origin, the one generalized velocity is the rate of
  that joint. The context holds the orientation of body B and the rate. A point of frame
  \<open>F\<close> at world position \<open>x\<close> has, measured in frame \<open>G\<close>, the velocity
  \<open>(spin F - spin G) \<times> x\<close> per unit rate; the bias acceleration is given for the world as
  measuring frame, the only one the evaluator asks for.
\<close>

record revolute_context =
  orientation :: "real list list"
  rate :: real

fun frame_pose :: "revolute_context \<Rightarrow> frame \<Rightarrow> pose" where
  "frame_pose c World = ([[1, 0, 0], [0, 1, 0], [0, 0, 1]], [0, 0, 0])"
| "frame_pose c Body_A = ([[1, 0, 0], [0, 1, 0], [0, 0, 1]], [0, 0, 0])"
| "frame_pose c Body_B = (orientation c, [0, 0, 0])"

fun spin :: "frame \<Rightarrow> real list" where
  "spin World = [0, 0, 0]"
| "spin Body_A = [0, 0, 0]"
| "spin Body_B = [0, 0, 1]"

definition revolute_plant :: "(revolute_context, frame) MultibodyPlant" where
  "revolute_plant =
     \<lparr> num_velocities = 1,
       world_frame = World,
       CalcPointsPositions = (\<lambda>c F p G.
         fin_vec (from_world (frame_pose c G) (to_world (frame_pose c F) (map real_part p)))),
       CalcJacobianTranslationalVelocity = (\<lambda>c w F p G E.
         fin_mat (map (\<lambda>y. [y])
           (mat_vec (transpose (fst (frame_pose c E)))
              (cross (map2 (-) (spin F) (spin G))
                 (to_world (frame_pose c F) (map real_part p)))))),
       CalcBiasTranslationalAcceleration = (\<lambda>c w F p G E.
         fin_vec (mat_vec (transpose (fst (frame_pose c E)))
           (map (\<lambda>y. (rate c)\<^sup>2 * y)
              (cross (spin F) (cross (spin F)
                 (to_world (frame_pose c F) (map real_part p))))))),
       GetVelocities = (\<lambda>c. fin_vec [rate c]) \<rparr>"

section \<open>Rounding error\<close>

text \<open>
  The sign of a scalar, an infinity included.
\<close>

fun is_positive :: "scalar \<Rightarrow> bool" where
  "is_positive (Fin x) = (0 < x)"
| "is_positive PInf = True"
| "is_positive NInf = False"
| "is_positive NaN = False"

fun is_negative :: "scalar \<Rightarrow> bool" where
  "is_negative (Fin x) = (x < 0)"
| "is_negative PInf = False"
| "is_negative NInf = True"
| "is_negative NaN = False"

text \<open>
  \<open>in_range lo hi x\<close>: \<open>x\<close> is zero, or its magnitude lies between \<open>2 ^ lo\<close> and \<open>2 ^ hi\<close>.
  A product or a square of numbers in a moderate range neither underflows nor overflows.
\<close>

definition in_range :: "int \<Rightarrow> int \<Rightarrow> real \<Rightarrow> bool" where
  "in_range lo hi x \<longleftrightarrow> x = 0 \<or> (2 powi lo \<le> \<bar>x\<bar> \<and> \<bar>x\<bar> \<le> 2 powi hi)"

text \<open>
  \<open>close e c x\<close>: the computed value \<open>c\<close> is the exact value \<open>x\<close> up to the relative error
  \<open>e\<close>. After \<open>k\<close> roundings in a row the relative error is at most
  \<open>rounding_error k = (1 + 2 ^ - 53) ^ k - 1\<close>, a little more than \<open>k * 2 ^ - 53\<close>.
\<close>

definition close :: "real \<Rightarrow> real \<Rightarrow> real \<Rightarrow> bool" where
  "close e c x \<longleftrightarrow> \<bar>c - x\<bar> \<le> e * \<bar>x\<bar>"

definition rounding_error :: "nat \<Rightarrow> real" where
  "rounding_error k = (1 + 1 / 2 ^ 53) ^ k - 1"

section \<open>Rounding\<close>

lemma round_half_even_int [simp]: "round_half_even (of_int n) = n"
  by (simp add: round_half_even_def)

lemma round_half_even_near: "\<bar>of_int (round_half_even q) - q\<bar> \<le> 1/2"
  unfolding round_half_even_def Let_def by (auto simp: abs_if) linarith+

lemma round_half_even_ge: "of_int j \<le> q \<Longrightarrow> j \<le> round_half_even q"
proof -
  assume "of_int j \<le> q"
  then have "j \<le> \<lfloor>q\<rfloor>" by (simp add: le_floor_iff)
  then show ?thesis unfolding round_half_even_def Let_def by auto
qed

lemma round_half_even_le: "q \<le> of_int j \<Longrightarrow> round_half_even q \<le> j"
proof -
  assume q: "q \<le> of_int j"
  show ?thesis
  proof (cases "q = of_int j")
    case True then show ?thesis by simp
  next
    case False
    with q have "q < of_int j" by simp
    then have "\<lfloor>q\<rfloor> < j" by (simp add: floor_less_iff)
    then show ?thesis unfolding round_half_even_def Let_def by auto
  qed
qed

lemma floor_log2:
  assumes "0 < a" "2 powi k \<le> a" "a < 2 powi (k + 1)"
  shows "\<lfloor>log 2 a\<rfloor> = k"
proof -
  have "2 powr (of_int k) = (2::real) powi k" "2 powr (of_int k + 1) = (2::real) powi (k + 1)"
    using powr_real_of_int' [of 2 k] powr_real_of_int' [of 2 "k + 1"] by simp_all
  with assms show ?thesis
    using floor_log_eq_powr_iff [of a 2 k] by simp
qed

lemma floor_log2_bounds:
  assumes "0 < a"
  shows "2 powi \<lfloor>log 2 a\<rfloor> \<le> a" "a < 2 powi (\<lfloor>log 2 a\<rfloor> + 1)"
proof -
  let ?k = "\<lfloor>log 2 a\<rfloor>"
  have "2 powr (of_int ?k) = (2::real) powi ?k" "2 powr (of_int ?k + 1) = (2::real) powi (?k + 1)"
    using powr_real_of_int' [of 2 ?k] powr_real_of_int' [of 2 "?k + 1"] by simp_all
  then show "2 powi ?k \<le> a" "a < 2 powi (?k + 1)"
    using floor_log_eq_powr_iff [of a 2 ?k] assms by simp_all
qed

lemma powi_split: "(2::real) powi j = 2 powi (j - e) * 2 powi e"
  using power_int_add [of "2::real" "j - e" e] by simp

lemma powi_nat: "0 \<le> j \<Longrightarrow> (2::real) powi j = of_int (2 ^ nat j)"
  by (simp add: power_int_def)

lemma powi_le_iff: "(2::real) powi i \<le> 2 powi j \<longleftrightarrow> i \<le> j"
proof
  assume le: "(2::real) powi i \<le> 2 powi j"
  show "i \<le> j"
  proof (rule ccontr)
    assume "\<not> i \<le> j"
    then have "(2::real) powi j < 2 powi i"
      by (intro power_int_strict_increasing) simp_all
    with le show False by simp
  qed
next
  assume "i \<le> j"
  then show "(2::real) powi i \<le> 2 powi j"
    by (intro power_int_increasing) simp_all
qed

lemma powi_less_iff: "(2::real) powi i < 2 powi j \<longleftrightarrow> i < j"
  using powi_le_iff [of j i] by (simp add: not_le [symmetric])

lemma ulp_exponent_ge: "- 1074 \<le> ulp_exponent a"
  by (simp add: ulp_exponent_def)

lemma ulp_exponent_le:
  assumes "0 < a" "a \<le> 2 powi j" "- 1074 \<le> j"
  shows "ulp_exponent a \<le> j"
proof -
  have "2 powi \<lfloor>log 2 a\<rfloor> \<le> (2::real) powi j"
    using floor_log2_bounds(1) [OF assms(1)] assms(2) by linarith
  then have "\<lfloor>log 2 a\<rfloor> \<le> j"
    by (simp only: powi_le_iff)
  with assms(3) show ?thesis by (simp add: ulp_exponent_def)
qed

lemma round_magnitude_upper:
  assumes "0 < a" "a \<le> 2 powi j" "- 1074 \<le> j"
  shows "round_magnitude a \<le> 2 powi j"
proof -
  let ?E = "ulp_exponent a"
  have E: "?E \<le> j" by (rule ulp_exponent_le [OF assms])
  have P: "0 < (2::real) powi ?E" by simp
  have "a / 2 powi ?E \<le> 2 powi (j - ?E)"
    using assms(2) P by (subst (asm) powi_split [of j ?E]) (simp add: field_simps)
  also have "\<dots> = of_int (2 ^ nat (j - ?E))"
    using E by (simp add: powi_nat)
  finally have "round_half_even (a / 2 powi ?E) \<le> 2 ^ nat (j - ?E)"
    by (rule round_half_even_le)
  then have "real_of_int (round_half_even (a / 2 powi ?E)) \<le> of_int (2 ^ nat (j - ?E))"
    by (simp only: of_int_le_iff)
  also have "\<dots> = 2 powi (j - ?E)"
    using E by (simp add: powi_nat)
  finally have "round_magnitude a \<le> 2 powi (j - ?E) * 2 powi ?E"
    unfolding round_magnitude_def using P by (simp add: mult_right_mono)
  then show ?thesis by (simp only: powi_split [symmetric])
qed

lemma round_magnitude_lower:
  assumes "2 powi j \<le> a" "- 1074 \<le> j"
  shows "2 powi j \<le> round_magnitude a"
proof -
  let ?E = "ulp_exponent a"
  let ?k = "\<lfloor>log 2 a\<rfloor>"
  have a: "0 < a" using assms(1) zero_less_power_int [of "2::real" j] by linarith
  have P: "0 < (2::real) powi ?E" by simp
  show ?thesis
  proof (cases "?E \<le> j")
    case True
    have "of_int (2 ^ nat (j - ?E)) = (2::real) powi (j - ?E)"
      using True by (simp add: powi_nat)
    also have "\<dots> \<le> a / 2 powi ?E"
      using assms(1) P by (subst (asm) powi_split [of j ?E]) (simp add: field_simps)
    finally have "2 ^ nat (j - ?E) \<le> round_half_even (a / 2 powi ?E)"
      by (rule round_half_even_ge)
    then have "real_of_int (2 ^ nat (j - ?E)) \<le> of_int (round_half_even (a / 2 powi ?E))"
      by (simp only: of_int_le_iff)
    then have "(2::real) powi (j - ?E) \<le> of_int (round_half_even (a / 2 powi ?E))"
      using True by (simp add: powi_nat)
    then have "2 powi (j - ?E) * 2 powi ?E \<le> round_magnitude a"
      unfolding round_magnitude_def using P by (simp add: mult_right_mono)
    then show ?thesis by (simp only: powi_split [symmetric])
  next
    case False
    with assms(2) have E: "?E = ?k - 52" by (simp add: ulp_exponent_def max_def split: if_splits)
    have "(2::real) powi ?k \<le> a" by (rule floor_log2_bounds(1) [OF a])
    then have "of_int (2 ^ 52) = (2::real) powi (?k - ?E)"
      using E by simp
    also have "\<dots> \<le> a / 2 powi ?E"
      using \<open>2 powi ?k \<le> a\<close> P by (subst (asm) powi_split [of ?k ?E]) (simp add: field_simps)
    finally have "2 ^ 52 \<le> round_half_even (a / 2 powi ?E)"
      by (rule round_half_even_ge)
    moreover have "(1::int) \<le> 2 ^ 52" by simp
    ultimately have "1 \<le> round_half_even (a / 2 powi ?E)"
      by (rule order_trans [rotated])
    then have "(1::real) \<le> of_int (round_half_even (a / 2 powi ?E))"
      by simp
    then have "1 * 2 powi ?E \<le> round_magnitude a"
      unfolding round_magnitude_def using P by (intro mult_right_mono) simp_all
    moreover have "(2::real) powi j \<le> 2 powi ?E"
      using False by (intro power_int_increasing) simp_all
    ultimately show ?thesis by simp
  qed
qed

lemma round_magnitude_exact:
  assumes "0 < N" "N < 2 ^ 53" "- 1074 \<le> e"
  shows "round_magnitude (of_int N * 2 powi e) = of_int N * 2 powi e"
proof -
  let ?a = "real_of_int N * 2 powi e"
  let ?E = "ulp_exponent ?a"
  have a: "0 < ?a" using assms(1) by simp
  have "?a \<le> 2 powi (e + 53)"
  proof -
    have "real_of_int N \<le> 2 ^ 53" using assms(2) by (metis less_imp_le of_int_le_iff of_int_numeral of_int_power)
    then have "?a \<le> 2 ^ 53 * 2 powi e" by (simp add: mult_right_mono)
    also have "\<dots> = 2 powi (e + 53)"
      using power_int_add [of "2::real" e 53] by simp
    finally show ?thesis .
  qed
  moreover have "?a \<noteq> 2 powi (e + 53)"
  proof
    assume "?a = 2 powi (e + 53)"
    then have "real_of_int N * 2 powi e = 2 ^ 53 * 2 powi e"
      using power_int_add [of "2::real" e 53] by simp
    then have "real_of_int N = 2 ^ 53" by simp
    then have "N = 2 ^ 53" by (metis of_int_eq_iff of_int_numeral of_int_power)
    with assms(2) show False by simp
  qed
  ultimately have lt: "?a < 2 powi (e + 53)" by simp
  have "2 powi \<lfloor>log 2 ?a\<rfloor> \<le> ?a" by (rule floor_log2_bounds(1) [OF a])
  with lt have "(2::real) powi \<lfloor>log 2 ?a\<rfloor> < 2 powi (e + 53)" by linarith
  then have "\<lfloor>log 2 ?a\<rfloor> < e + 53"
    by (simp only: powi_less_iff)
  with assms(3) have E: "?E \<le> e" by (simp add: ulp_exponent_def)
  have "?a / 2 powi ?E = of_int N * 2 powi (e - ?E)"
    by (subst powi_split [of e ?E]) simp
  also have "\<dots> = of_int (N * 2 ^ nat (e - ?E))"
    using E by (simp add: powi_nat)
  finally have "round_half_even (?a / 2 powi ?E) = N * 2 ^ nat (e - ?E)"
    by (simp only: round_half_even_int)
  then have "round_magnitude ?a = of_int (N * 2 ^ nat (e - ?E)) * 2 powi ?E"
    by (simp only: round_magnitude_def)
  also have "\<dots> = of_int N * (2 powi (e - ?E) * 2 powi ?E)"
    using E by (simp add: powi_nat)
  finally show ?thesis by (simp only: powi_split [symmetric])
qed

lemma round_magnitude_error:
  assumes "0 < a"
  shows "\<bar>round_magnitude a - a\<bar> \<le> 2 powi ulp_exponent a / 2"
proof -
  let ?P = "(2::real) powi ulp_exponent a"
  have P: "0 < ?P" by simp
  have "round_magnitude a - a = (of_int (round_half_even (a / ?P)) - a / ?P) * ?P"
    using P by (simp add: round_magnitude_def field_simps)
  then have "\<bar>round_magnitude a - a\<bar> = \<bar>of_int (round_half_even (a / ?P)) - a / ?P\<bar> * ?P"
    using P by (simp add: abs_mult)
  also have "\<dots> \<le> 1/2 * ?P"
    using round_half_even_near [of "a / ?P"] P by (intro mult_right_mono) simp_all
  finally show ?thesis by simp
qed

lemma round_magnitude_relative:
  assumes "2 powi (- 1022) \<le> a"
  shows "\<bar>round_magnitude a - a\<bar> \<le> a / 2 ^ 53"
proof -
  let ?k = "\<lfloor>log 2 a\<rfloor>"
  have a: "0 < a" using assms zero_less_power_int [of "2::real" "- 1022"] by linarith
  have "a < 2 powi (?k + 1)" by (rule floor_log2_bounds(2) [OF a])
  with assms have "(2::real) powi (- 1022) < 2 powi (?k + 1)" by linarith
  then have "- 1022 < ?k + 1"
    by (simp only: powi_less_iff)
  then have E: "ulp_exponent a = ?k - 52"
    unfolding ulp_exponent_def by linarith
  have "(2::real) powi ulp_exponent a = 2 powi ?k / 2 ^ 52"
    unfolding E using power_int_diff [of "2::real" ?k 52] by simp
  also have "\<dots> \<le> a / 2 ^ 52"
    using floor_log2_bounds(1) [OF a] by (simp add: divide_right_mono)
  finally have "2 powi ulp_exponent a / 2 \<le> a / 2 ^ 53" by simp
  with round_magnitude_error [OF a] show ?thesis by linarith
qed

lemma round_magnitude_grid:
  "\<exists>n::int. 0 \<le> n \<and> round_magnitude a = of_int n * 2 powi (- 1074)" if "0 \<le> a"
proof -
  let ?E = "ulp_exponent a"
  let ?n = "round_half_even (a / 2 powi ?E)"
  have "0 \<le> a / 2 powi ?E" using that by simp
  then have n: "0 \<le> ?n" using round_half_even_ge [of 0] by simp
  have "(2::real) powi ?E = of_int (2 ^ nat (?E + 1074)) * 2 powi (- 1074)"
    using ulp_exponent_ge [of a] powi_split [of ?E "- 1074"] by (simp add: powi_nat)
  then have "round_magnitude a = of_int (?n * 2 ^ nat (?E + 1074)) * 2 powi (- 1074)"
    by (simp add: round_magnitude_def)
  with n show ?thesis by (intro exI [of _ "?n * 2 ^ nat (?E + 1074)"]) simp
qed

lemma round_magnitude_nonneg: "0 \<le> a \<Longrightarrow> 0 \<le> round_magnitude a"
proof -
  assume "0 \<le> a"
  then have "0 \<le> a / 2 powi ulp_exponent a" by simp
  then have "0 \<le> round_half_even (a / 2 powi ulp_exponent a)"
    using round_half_even_ge [of 0] by simp
  then show ?thesis by (simp add: round_magnitude_def)
qed

lemma round_double_zero [simp]: "round_double 0 = Fin 0"
  by (simp add: round_double_def)

lemma round_double_not_NaN [simp]: "round_double x \<noteq> NaN"
  by (simp add: round_double_def)

lemma round_double_uminus: "round_double (- x) = - round_double x"
  by (cases "x = 0"; cases "0 < x") (simp_all add: round_double_def)

lemma round_double_exact_pos:
  assumes "0 < N" "N < 2 ^ 53" "- 1074 \<le> e" "e \<le> 971"
  shows "round_double (of_int N * 2 powi e) = Fin (of_int N * 2 powi e)"
proof -
  let ?x = "real_of_int N * 2 powi e"
  have x: "0 < ?x" using assms(1) by simp
  have "real_of_int N < 2 ^ 53"
    using assms(2) by (metis of_int_less_iff of_int_numeral of_int_power)
  then have "?x < 2 ^ 53 * 2 powi e" by (simp add: mult_strict_right_mono)
  also have "\<dots> \<le> 2 ^ 53 * 2 powi 971"
  proof (rule mult_left_mono)
    show "(2::real) powi e \<le> 2 powi 971"
      using assms(4) by (simp only: powi_le_iff)
  qed simp
  also have "\<dots> = 2 ^ 1024" by simp
  finally have "?x < 2 ^ 1024" .
  then show ?thesis
    using x round_magnitude_exact [OF assms(1,2,3)] by (simp add: round_double_def)
qed

lemma round_double_exact:
  assumes "\<bar>N\<bar> < 2 ^ 53" "- 1074 \<le> e" "e \<le> 971"
  shows "round_double (of_int N * 2 powi e) = Fin (of_int N * 2 powi e)"
proof (cases "N = 0")
  case True
  then show ?thesis by simp
next
  case False
  show ?thesis
  proof (cases "0 < N")
    case True
    with assms show ?thesis by (intro round_double_exact_pos) simp_all
  next
    case neg: False
    with False assms have "round_double (of_int (- N) * 2 powi e) = Fin (of_int (- N) * 2 powi e)"
      by (intro round_double_exact_pos) simp_all
    then have "round_double (- (of_int N * 2 powi e)) = Fin (- (of_int N * 2 powi e))"
      by simp
    then show ?thesis
      by (simp only: round_double_uminus) (cases "round_double (of_int N * 2 powi e)"; simp)
  qed
qed

lemma round_double_int:
  "\<bar>N\<bar> < 2 ^ 53 \<Longrightarrow> round_double (of_int N) = Fin (of_int N)"
  using round_double_exact [of N 0] by simp

lemma round_double_numeral [simp]:
  "numeral n < (2::int) ^ 53 \<Longrightarrow> round_double (numeral n) = Fin (numeral n)"
  "numeral n < (2::int) ^ 53 \<Longrightarrow> round_double (- numeral n) = Fin (- numeral n)"
  using round_double_int [of "numeral n"] round_double_int [of "- numeral n"] by simp_all

lemma round_double_one [simp]: "round_double 1 = Fin 1" "round_double (- 1) = Fin (- 1)"
  using round_double_int [of 1] round_double_int [of "- 1"] by simp_all

lemma round_double_half [simp]:
  "round_double (1/2) = Fin (1/2)" "round_double (- (1/2)) = Fin (- (1/2))"
  using round_double_exact [of 1 "- 1"] round_double_exact [of "- 1" "- 1"] by simp_all

lemma round_double_quarter [simp]: "round_double (1/4) = Fin (1/4)"
  using round_double_exact [of 1 "- 2"] by simp

section \<open>Rounding of results in range\<close>

lemma round_double_pos_cases:
  assumes "0 < x"
  shows "round_double x = PInf \<or> round_double x = Fin (round_magnitude x)"
  using assms by (simp add: round_double_def)

lemma round_double_lower:
  assumes "2 powi j \<le> x" "- 1074 \<le> j"
  shows "round_double x = PInf \<or> (\<exists>r. round_double x = Fin r \<and> 2 powi j \<le> r)"
proof -
  have "0 < x" using assms(1) zero_less_power_int [of "2::real" j] by linarith
  then show ?thesis
    using round_magnitude_lower [OF assms] by (auto simp: round_double_def)
qed

lemma round_double_grid:
  assumes "round_double x = Fin r"
  shows "\<exists>n::int. r = of_int n * 2 powi (- 1074)"
proof (cases "x = 0")
  case True
  with assms show ?thesis by (intro exI [of _ 0]) simp
next
  case False
  show ?thesis
  proof (cases "0 < x")
    case True
    with assms have "r = round_magnitude x"
      by (simp add: round_double_def split: if_splits)
    then show ?thesis using round_magnitude_grid [of x] True by auto
  next
    case neg: False
    with False assms have "r = - round_magnitude (- x)"
      by (simp add: round_double_def split: if_splits)
    moreover obtain n :: int where "round_magnitude (- x) = of_int n * 2 powi (- 1074)"
      using round_magnitude_grid [of "- x"] neg by auto
    ultimately have "r = of_int (- n) * 2 powi (- 1074)" by simp
    then show ?thesis by blast
  qed
qed

lemma grid_exact:
  assumes "x = of_int n * 2 powi (- 1074)" "\<bar>x\<bar> < 2 powi (- 1022)"
  shows "round_double x = Fin x"
proof -
  have "\<bar>real_of_int n\<bar> * 2 powi (- 1074) < 2 ^ 52 * 2 powi (- 1074)"
  proof -
    have "(2::real) powi (- 1022) = 2 ^ 52 * 2 powi (- 1074)"
      using power_int_add [of "2::real" 52 "- 1074"] by simp
    with assms show ?thesis by (simp add: abs_mult)
  qed
  then have "\<bar>real_of_int n\<bar> < 2 ^ 52" by simp
  then have "real_of_int \<bar>n\<bar> < real_of_int (2 ^ 52)" by simp
  then have "\<bar>n\<bar> < 2 ^ 52" by (simp only: of_int_less_iff)
  then have "\<bar>n\<bar> < 2 ^ 53" by simp
  then show ?thesis
    unfolding assms(1) by (intro round_double_exact) simp_all
qed

lemma round_double_relative:
  assumes "round_double x = Fin r" "2 powi (- 1022) \<le> \<bar>x\<bar>"
  shows "\<bar>r - x\<bar> \<le> \<bar>x\<bar> / 2 ^ 53"
proof (cases "0 < x")
  case True
  with assms have "r = round_magnitude x"
    by (simp add: round_double_def split: if_splits)
  with round_magnitude_relative [of x] assms(2) True show ?thesis by simp
next
  case False
  have "x \<noteq> 0" using assms(2) zero_less_power_int [of "2::real" "- 1022"] by auto
  with False assms have "r = - round_magnitude (- x)"
    by (simp add: round_double_def split: if_splits)
  with round_magnitude_relative [of "- x"] assms(2) False show ?thesis by simp
qed

subsection \<open>Ranges\<close>

lemma in_range_zero [simp]: "in_range lo hi 0"
  by (simp add: in_range_def)

lemma in_range_uminus [simp]: "in_range lo hi (- x) = in_range lo hi x"
  by (simp add: in_range_def)

lemma in_range_weaken:
  "in_range lo hi x \<Longrightarrow> lo' \<le> lo \<Longrightarrow> hi \<le> hi' \<Longrightarrow> in_range lo' hi' x"
  unfolding in_range_def
  using powi_le_iff [of lo' lo] powi_le_iff [of hi hi'] by auto

lemma in_range_mult:
  assumes "in_range l1 h1 x" "in_range l2 h2 y"
  shows "in_range (l1 + l2) (h1 + h2) (x * y)"
proof (cases "x = 0 \<or> y = 0")
  case True
  then show ?thesis by auto
next
  case False
  with assms have x: "2 powi l1 \<le> \<bar>x\<bar>" "\<bar>x\<bar> \<le> 2 powi h1"
    and y: "2 powi l2 \<le> \<bar>y\<bar>" "\<bar>y\<bar> \<le> 2 powi h2"
    by (auto simp: in_range_def)
  have "2 powi l1 * 2 powi l2 \<le> \<bar>x\<bar> * \<bar>y\<bar>"
    using x(1) y(1) by (intro mult_mono) simp_all
  moreover have "\<bar>x\<bar> * \<bar>y\<bar> \<le> 2 powi h1 * 2 powi h2"
    using x(2) y(2) by (intro mult_mono) simp_all
  ultimately show ?thesis
    by (simp add: in_range_def abs_mult power_int_add)
qed

lemma in_range_add_nonneg:
  assumes "in_range lo hi x" "in_range lo hi y" "0 \<le> x" "0 \<le> y"
  shows "in_range lo (hi + 1) (x + y)"
proof (cases "x = 0 \<and> y = 0")
  case True
  then show ?thesis by simp
next
  case False
  with assms have low: "2 powi lo \<le> x + y"
    by (auto simp: in_range_def)
  have "x \<le> 2 powi hi" "y \<le> 2 powi hi"
    using assms by (auto simp: in_range_def)
  then have "x + y \<le> 2 * 2 powi hi" by simp
  also have "\<dots> = 2 powi (hi + 1)"
    using power_int_add [of "2::real" hi 1] by simp
  finally show ?thesis using low assms(3,4) by (simp add: in_range_def)
qed

lemma sqrt_powi: "sqrt (2 powi (2 * j)) = 2 powi j"
proof -
  have "(2::real) powi (2 * j) = 2 powi (j + j)" by (simp only: mult_2)
  also have "\<dots> = 2 powi j * 2 powi j" by (rule power_int_add) simp
  finally have "(2::real) powi (2 * j) = 2 powi j * 2 powi j" .
  then show ?thesis by (simp only: real_sqrt_abs2) simp
qed

lemma in_range_sqrt:
  assumes "in_range (2 * lo) (2 * hi) x" "0 \<le> x"
  shows "in_range lo hi (sqrt x)"
proof (cases "x = 0")
  case True
  then show ?thesis by simp
next
  case False
  with assms have "2 powi (2 * lo) \<le> x" "x \<le> 2 powi (2 * hi)"
    by (auto simp: in_range_def)
  then have "sqrt (2 powi (2 * lo)) \<le> sqrt x" "sqrt x \<le> sqrt (2 powi (2 * hi))"
    by simp_all
  then show ?thesis
    using assms(2) by (simp add: in_range_def sqrt_powi)
qed

subsection \<open>Relative errors\<close>

lemma rounding_error_nonneg: "0 \<le> rounding_error k"
  by (simp add: rounding_error_def)

lemma rounding_error_0 [simp]: "rounding_error 0 = 0"
  by (simp add: rounding_error_def)

lemma rounding_error_1: "rounding_error 1 = 1 / 2 ^ 53"
  by (simp add: rounding_error_def)

lemma rounding_error_Suc_0: "rounding_error (Suc 0) = 1 / 2 ^ 53"
  by (simp add: rounding_error_def)

lemma rounding_error_compose:
  "(1 + rounding_error i) * (1 + rounding_error j) = 1 + rounding_error (i + j)"
  by (simp add: rounding_error_def power_add)

lemma rounding_error_mono: "i \<le> j \<Longrightarrow> rounding_error i \<le> rounding_error j"
  by (simp add: rounding_error_def power_increasing)

lemma close_refl [simp]: "close (rounding_error k) x x"
  by (simp add: close_def rounding_error_nonneg)

lemma close_zero [simp]: "close e c 0 \<longleftrightarrow> c = 0"
  by (simp add: close_def)

lemma close_mono: "close e c x \<Longrightarrow> e \<le> e' \<Longrightarrow> close e' c x"
  unfolding close_def by (meson abs_ge_zero mult_right_mono order_trans)

lemma close_weaken:
  "close (rounding_error i) c x \<Longrightarrow> i \<le> j \<Longrightarrow> close (rounding_error j) c x"
  by (erule close_mono) (rule rounding_error_mono)

lemma close_abs_le:
  assumes "close e c x"
  shows "\<bar>c\<bar> \<le> (1 + e) * \<bar>x\<bar>"
proof -
  have "\<bar>c\<bar> \<le> \<bar>c - x\<bar> + \<bar>x\<bar>" by simp
  with assms show ?thesis by (simp add: close_def algebra_simps)
qed

lemma close_trans:
  assumes "close (rounding_error i) c m" "close (rounding_error j) m x"
  shows "close (rounding_error (i + j)) c x"
proof -
  have "\<bar>c - x\<bar> \<le> \<bar>c - m\<bar> + \<bar>m - x\<bar>" by simp
  also have "\<dots> \<le> rounding_error i * \<bar>m\<bar> + rounding_error j * \<bar>x\<bar>"
    using assms by (simp add: close_def add_mono)
  also have "\<dots> \<le> rounding_error i * ((1 + rounding_error j) * \<bar>x\<bar>) + rounding_error j * \<bar>x\<bar>"
    using close_abs_le [OF assms(2)] rounding_error_nonneg [of i]
    by (simp add: mult_left_mono)
  also have "\<dots> = ((1 + rounding_error i) * (1 + rounding_error j) - 1) * \<bar>x\<bar>"
    by (simp add: algebra_simps)
  also have "\<dots> = rounding_error (i + j) * \<bar>x\<bar>"
    by (simp only: rounding_error_compose) simp
  finally show ?thesis by (simp add: close_def)
qed

lemma close_mult:
  assumes "close (rounding_error i) c1 x1" "close (rounding_error j) c2 x2"
  shows "close (rounding_error (i + j)) (c1 * c2) (x1 * x2)"
proof -
  have "c1 * c2 - x1 * x2 = (c1 - x1) * c2 + x1 * (c2 - x2)"
    by (simp add: algebra_simps)
  then have "\<bar>c1 * c2 - x1 * x2\<bar> \<le> \<bar>c1 - x1\<bar> * \<bar>c2\<bar> + \<bar>x1\<bar> * \<bar>c2 - x2\<bar>"
    by (metis abs_mult abs_triangle_ineq)
  also have "\<dots> \<le> (rounding_error i * \<bar>x1\<bar>) * ((1 + rounding_error j) * \<bar>x2\<bar>)
      + \<bar>x1\<bar> * (rounding_error j * \<bar>x2\<bar>)"
    using assms close_abs_le [OF assms(2)] rounding_error_nonneg [of i]
    by (intro add_mono mult_mono) (simp_all add: close_def)
  also have "\<dots> = ((1 + rounding_error i) * (1 + rounding_error j) - 1) * (\<bar>x1\<bar> * \<bar>x2\<bar>)"
    by (simp add: algebra_simps)
  also have "\<dots> = rounding_error (i + j) * \<bar>x1 * x2\<bar>"
    by (simp only: rounding_error_compose abs_mult) simp
  finally show ?thesis by (simp add: close_def)
qed

lemma close_add_nonneg:
  assumes "close e c1 x1" "close e c2 x2" "0 \<le> x1" "0 \<le> x2"
  shows "close e (c1 + c2) (x1 + x2)"
proof -
  have "\<bar>(c1 + c2) - (x1 + x2)\<bar> \<le> \<bar>c1 - x1\<bar> + \<bar>c2 - x2\<bar>" by simp
  also have "\<dots> \<le> e * \<bar>x1\<bar> + e * \<bar>x2\<bar>"
    using assms by (simp add: close_def add_mono)
  also have "\<dots> = e * \<bar>x1 + x2\<bar>"
    using assms(3,4) by (simp add: algebra_simps)
  finally show ?thesis by (simp add: close_def)
qed

lemma close_sqrt:
  assumes "close e c x" "0 \<le> c" "0 \<le> x" "0 \<le> e"
  shows "close e (sqrt c) (sqrt x)"
proof (cases "x = 0")
  case True
  with assms show ?thesis by simp
next
  case False
  with assms(3) have x: "0 < x" by simp
  then have sx: "0 < sqrt x" by simp
  have "(sqrt c - sqrt x) * (sqrt c + sqrt x) = c - x"
    using assms(2,3) by (simp add: algebra_simps)
  then have "\<bar>sqrt c - sqrt x\<bar> * (sqrt c + sqrt x) = \<bar>c - x\<bar>"
    using assms(2) sx by (metis abs_mult abs_of_nonneg add_nonneg_nonneg less_imp_le
        real_sqrt_ge_zero)
  moreover have "sqrt x \<le> sqrt c + sqrt x" using assms(2) by simp
  ultimately have "\<bar>sqrt c - sqrt x\<bar> * sqrt x \<le> \<bar>c - x\<bar>"
    by (metis abs_ge_zero mult_left_mono)
  also have "\<dots> \<le> e * x" using assms(1) x by (simp add: close_def)
  also have "\<dots> = (e * sqrt x) * sqrt x" using x by simp
  finally have "\<bar>sqrt c - sqrt x\<bar> \<le> e * sqrt x"
    using sx by (simp only: mult_le_cancel_right_pos)
  then show ?thesis using sx by (simp add: close_def)
qed

section \<open>The computed norm\<close>

lemma round_in_range_pos:
  assumes "2 powi lo \<le> x" "x \<le> 2 powi hi" "- 1022 \<le> lo" "hi \<le> 1023"
  shows "\<exists>r. round_double x = Fin r \<and> \<bar>r - x\<bar> \<le> x / 2 ^ 53 \<and> 2 powi lo \<le> r \<and> r \<le> 2 powi hi"
proof -
  have x: "0 < x" using assms(1) zero_less_power_int [of "2::real" lo] by linarith
  have "(2::real) powi lo \<le> 2 powi hi" using assms(1,2) by linarith
  then have lohi: "lo \<le> hi" by (simp only: powi_le_iff)
  have up: "round_magnitude x \<le> 2 powi hi"
    using round_magnitude_upper [OF x assms(2)] lohi assms(3) by simp
  have "(2::real) powi hi \<le> 2 powi 1023" using assms(4) by (simp only: powi_le_iff)
  also have "\<dots> < 2 ^ 1024" by simp
  finally have "round_magnitude x < 2 ^ 1024" using up by linarith
  have low: "2 powi lo \<le> round_magnitude x"
    using round_magnitude_lower [OF assms(1)] assms(3) by simp
  have "(2::real) powi (- 1022) \<le> 2 powi lo" using assms(3) by (simp only: powi_le_iff)
  then have "2 powi (- 1022) \<le> x" using assms(1) by linarith
  then have rel: "\<bar>round_magnitude x - x\<bar> \<le> x / 2 ^ 53" by (rule round_magnitude_relative)
  have "round_double x = Fin (round_magnitude x)"
    using x \<open>round_magnitude x < 2 ^ 1024\<close> by (simp add: round_double_def)
  then show ?thesis using rel low up by blast
qed

lemma round_in_range:
  assumes "in_range lo hi x" "- 1022 \<le> lo" "hi \<le> 1023"
  shows "\<exists>r. round_double x = Fin r \<and> close (rounding_error 1) r x \<and> in_range lo hi r
    \<and> (0 < r \<longleftrightarrow> 0 < x) \<and> (r < 0 \<longleftrightarrow> x < 0)"
proof (cases "x = 0")
  case True
  then show ?thesis by simp
next
  case False
  show ?thesis
  proof (cases "0 < x")
    case True
    with assms(1) have "2 powi lo \<le> x" "x \<le> 2 powi hi" by (auto simp: in_range_def)
    from round_in_range_pos [OF this assms(2,3)] obtain r where
      r: "round_double x = Fin r" "\<bar>r - x\<bar> \<le> x / 2 ^ 53" "2 powi lo \<le> r" "r \<le> 2 powi hi"
      by blast
    have "0 < r" using r(3) zero_less_power_int [of "2::real" lo] by linarith
    then have "close (rounding_error 1) r x" "in_range lo hi r"
      using r True by (simp_all add: close_def in_range_def rounding_error_Suc_0)
    then show ?thesis using r(1) True \<open>0 < r\<close> by auto
  next
    case neg: False
    with False have nx: "0 < - x" by simp
    with assms(1) have "2 powi lo \<le> - x" "- x \<le> 2 powi hi" by (auto simp: in_range_def)
    from round_in_range_pos [OF this assms(2,3)] obtain r where
      r: "round_double (- x) = Fin r" "\<bar>r - (- x)\<bar> \<le> (- x) / 2 ^ 53" "2 powi lo \<le> r"
        "r \<le> 2 powi hi"
      by blast
    have rp: "0 < r" using r(3) zero_less_power_int [of "2::real" lo] by linarith
    have "round_double x = - round_double (- x)"
      using round_double_uminus [of "- x"] by simp
    then have e: "round_double x = Fin (- r)" by (simp add: r(1))
    have "\<bar>- r - x\<bar> = \<bar>r - (- x)\<bar>" by simp
    then have "close (rounding_error 1) (- r) x"
      using r(2) nx by (simp add: close_def rounding_error_Suc_0)
    moreover have "in_range lo hi (- r)"
      using r(3,4) rp by (simp add: in_range_def)
    ultimately show ?thesis using e nx rp by auto
  qed
qed

lemma Fin_minus_Fin: "Fin a - Fin b = round_double (a - b)"
  by (simp add: minus_scalar_def)

lemma rounded_difference:
  assumes "in_range lo hi (a - b)" "- 1022 \<le> lo" "hi \<le> 1023"
  shows "\<exists>r. Fin a - Fin b = Fin r \<and> close (rounding_error 1) r (a - b) \<and> in_range lo hi r"
  using round_in_range [OF assms] by (auto simp only: Fin_minus_Fin)

lemma rounded_times:
  assumes "in_range l1 h1 x" "in_range l2 h2 y" "- 1022 \<le> l1 + l2" "h1 + h2 \<le> 1023"
  shows "\<exists>r. Fin x * Fin y = Fin r \<and> close (rounding_error 1) r (x * y)
    \<and> in_range (l1 + l2) (h1 + h2) r \<and> (0 < r \<longleftrightarrow> 0 < x * y) \<and> (r < 0 \<longleftrightarrow> x * y < 0)"
  using round_in_range [OF in_range_mult [OF assms(1,2)] assms(3,4)] by simp

lemma rounded_plus_nonneg:
  assumes "in_range lo hi x" "in_range lo hi y" "0 \<le> x" "0 \<le> y" "- 1022 \<le> lo" "hi + 1 \<le> 1023"
  shows "\<exists>r. Fin x + Fin y = Fin r \<and> close (rounding_error 1) r (x + y)
    \<and> in_range lo (hi + 1) r \<and> 0 \<le> r"
proof -
  from round_in_range [OF in_range_add_nonneg [OF assms(1-4)] assms(5,6)] obtain r where
    r: "round_double (x + y) = Fin r" "close (rounding_error 1) r (x + y)"
      "in_range lo (hi + 1) r" "r < 0 \<longleftrightarrow> x + y < 0"
    by blast
  have "0 \<le> r" using r(4) assms(3,4) by linarith
  then show ?thesis using r by simp
qed

lemma rounded_sqrt:
  assumes "in_range (2 * lo) (2 * hi) x" "0 \<le> x" "- 1022 \<le> lo" "hi \<le> 1023"
  shows "\<exists>r. sqrt_scalar (Fin x) = Fin r \<and> close (rounding_error 1) r (sqrt x)
    \<and> in_range lo hi r \<and> 0 \<le> r"
proof -
  from round_in_range [OF in_range_sqrt [OF assms(1,2)] assms(3,4)] obtain r where
    r: "round_double (sqrt x) = Fin r" "close (rounding_error 1) r (sqrt x)"
      "in_range lo hi r" "r < 0 \<longleftrightarrow> sqrt x < 0"
    by blast
  have "0 \<le> r" using r(4) assms(2) by (simp add: not_less [symmetric])
  then show ?thesis using r assms(2) by simp
qed

text \<open>The square of a rounded coordinate difference: three roundings.\<close>

lemma rounded_square_difference:
  assumes "in_range (- 500) 500 (a - b)"
  shows "\<exists>s. (Fin a - Fin b) * (Fin a - Fin b) = Fin s \<and> 0 \<le> s
    \<and> close (rounding_error 3) s ((a - b)\<^sup>2) \<and> in_range (- 1000) 1000 s"
proof -
  from rounded_difference [OF assms] obtain r where
    r: "Fin a - Fin b = Fin r" "close (rounding_error 1) r (a - b)" "in_range (- 500) 500 r"
    by auto
  from rounded_times [OF r(3) r(3)] obtain s where
    s: "Fin r * Fin r = Fin s" "close (rounding_error 1) s (r * r)"
      "in_range (- 500 + - 500) (500 + 500) s" "s < 0 \<longleftrightarrow> r * r < 0"
    by auto
  have "0 \<le> s" using s(4) by (simp add: not_less [symmetric])
  moreover have "close (rounding_error (1 + (1 + 1))) s ((a - b) * (a - b))"
    by (rule close_trans [OF s(2) close_mult [OF r(2) r(2)]])
  then have "close (rounding_error 3) s ((a - b)\<^sup>2)"
    by (simp add: power2_eq_square numeral_3_eq_3)
  ultimately show ?thesis using r(1) s(1,3) by simp
qed

lemma Euclidean_norm_3: "Euclidean_norm [x0, x1, x2] = sqrt (x0\<^sup>2 + x1\<^sup>2 + x2\<^sup>2)"
  by (simp add: Euclidean_norm_def numeral_3_eq_3)

lemma norm_vec_3:
  "norm_vec (vec_minus (fin_vec [a0, a1, a2]) (fin_vec [b0, b1, b2]))
     = sqrt_scalar ((Fin a0 - Fin b0) * (Fin a0 - Fin b0) + (Fin a1 - Fin b1) * (Fin a1 - Fin b1)
         + (Fin a2 - Fin b2) * (Fin a2 - Fin b2))"
  by (simp add: norm_vec_def squaredNorm_def dot_def vec_minus_def fin_vec_def)

text \<open>
  The computed norm of a difference of two points, each coordinate difference in range:
  six roundings separate it from the Euclidean norm.
\<close>

lemma norm_vec_error:
  assumes "in_range (- 500) 500 (a0 - b0)" "in_range (- 500) 500 (a1 - b1)"
    "in_range (- 500) 500 (a2 - b2)"
  shows "\<exists>p. norm_vec (vec_minus (fin_vec [a0, a1, a2]) (fin_vec [b0, b1, b2])) = Fin p
    \<and> 0 \<le> p \<and> in_range (- 500) 501 p
    \<and> close (rounding_error 6) p (Euclidean_norm [a0 - b0, a1 - b1, a2 - b2])"
proof -
  from rounded_square_difference [OF assms(1)] obtain s0 where
    s0: "(Fin a0 - Fin b0) * (Fin a0 - Fin b0) = Fin s0" "0 \<le> s0"
      "close (rounding_error 3) s0 ((a0 - b0)\<^sup>2)" "in_range (- 1000) 1000 s0"
    by auto
  from rounded_square_difference [OF assms(2)] obtain s1 where
    s1: "(Fin a1 - Fin b1) * (Fin a1 - Fin b1) = Fin s1" "0 \<le> s1"
      "close (rounding_error 3) s1 ((a1 - b1)\<^sup>2)" "in_range (- 1000) 1000 s1"
    by auto
  from rounded_square_difference [OF assms(3)] obtain s2 where
    s2: "(Fin a2 - Fin b2) * (Fin a2 - Fin b2) = Fin s2" "0 \<le> s2"
      "close (rounding_error 3) s2 ((a2 - b2)\<^sup>2)" "in_range (- 1000) 1000 s2"
    by auto
  from rounded_plus_nonneg [OF s0(4) s1(4) s0(2) s1(2)] obtain t where
    t: "Fin s0 + Fin s1 = Fin t" "close (rounding_error 1) t (s0 + s1)"
      "in_range (- 1000) (1000 + 1) t" "0 \<le> t"
    by auto
  have "close (rounding_error 3) (s0 + s1) ((a0 - b0)\<^sup>2 + (a1 - b1)\<^sup>2)"
    by (rule close_add_nonneg [OF s0(3) s1(3)]) simp_all
  from close_trans [OF t(2) this]
  have ct: "close (rounding_error 4) t ((a0 - b0)\<^sup>2 + (a1 - b1)\<^sup>2)" by simp
  have s2': "in_range (- 1000) (1000 + 1) s2"
    by (rule in_range_weaken [OF s2(4)]) simp_all
  from rounded_plus_nonneg [OF t(3) s2' t(4) s2(2)] obtain w where
    w: "Fin t + Fin s2 = Fin w" "close (rounding_error 1) w (t + s2)"
      "in_range (- 1000) (1000 + 1 + 1) w" "0 \<le> w"
    by auto
  have "close (rounding_error 4) s2 ((a2 - b2)\<^sup>2)"
    by (rule close_weaken [OF s2(3)]) simp
  then have "close (rounding_error 4) (t + s2) ((a0 - b0)\<^sup>2 + (a1 - b1)\<^sup>2 + (a2 - b2)\<^sup>2)"
    by (intro close_add_nonneg [OF ct]) simp_all
  from close_trans [OF w(2) this]
  have cw: "close (rounding_error 5) w ((a0 - b0)\<^sup>2 + (a1 - b1)\<^sup>2 + (a2 - b2)\<^sup>2)" by simp
  have w': "in_range (2 * - 500) (2 * 501) w" using w(3) by simp
  from rounded_sqrt [OF w' w(4)] obtain p where
    p: "sqrt_scalar (Fin w) = Fin p" "close (rounding_error 1) p (sqrt w)"
      "in_range (- 500) 501 p" "0 \<le> p"
    by auto
  have "close (rounding_error 5) (sqrt w)
      (sqrt ((a0 - b0)\<^sup>2 + (a1 - b1)\<^sup>2 + (a2 - b2)\<^sup>2))"
    by (rule close_sqrt [OF cw w(4)]) (simp_all add: rounding_error_nonneg)
  from close_trans [OF p(2) this]
  have "close (rounding_error 6) p (Euclidean_norm [a0 - b0, a1 - b1, a2 - b2])"
    by (simp add: Euclidean_norm_3)
  then show ?thesis
    using p(1,3,4) by (simp only: norm_vec_3 s0(1) s1(1) s2(1) t(1) w(1)) simp
qed

lemma rounding_error_6: "rounding_error 6 \<le> 7 / 2 ^ 53"
  by (simp add: rounding_error_def field_simps)

lemma rounding_error_7: "rounding_error 7 \<le> 8 / 2 ^ 53"
  by (simp add: rounding_error_def field_simps)

text \<open>
  The rounding of a difference of two doubles: no underflow (a subnormal difference is
  exact), so the sign is that of the exact difference.
\<close>

lemma round_grid:
  assumes "x = of_int n * 2 powi (- 1074)" "\<bar>x\<bar> \<le> 2 powi 1023"
  shows "\<exists>r. round_double x = Fin r \<and> close (rounding_error 1) r x
    \<and> (0 < r \<longleftrightarrow> 0 < x) \<and> (r < 0 \<longleftrightarrow> x < 0)"
proof (cases "\<bar>x\<bar> < 2 powi (- 1022)")
  case True
  from grid_exact [OF assms(1) True] show ?thesis by simp
next
  case False
  then have "in_range (- 1022) 1023 x" using assms(2) by (simp add: in_range_def)
  from round_in_range [OF this] show ?thesis by auto
qed

lemma round_difference_of_doubles:
  assumes "round_double p0 = Fin p" "round_double t0 = Fin t" "\<bar>p - t\<bar> \<le> 2 powi 1023"
  shows "\<exists>r. Fin p - Fin t = Fin r \<and> close (rounding_error 1) r (p - t)
    \<and> (0 < r \<longleftrightarrow> t < p) \<and> (r < 0 \<longleftrightarrow> p < t)"
proof -
  from round_double_grid [OF assms(1)] obtain n :: int where n: "p = of_int n * 2 powi (- 1074)"
    by blast
  from round_double_grid [OF assms(2)] obtain m :: int where m: "t = of_int m * 2 powi (- 1074)"
    by blast
  have "p - t = of_int (n - m) * 2 powi (- 1074)"
    unfolding n m by (simp only: of_int_diff left_diff_distrib)
  from round_grid [OF this assms(3)] show ?thesis
    by (auto simp only: Fin_minus_Fin diff_gt_0_iff_gt diff_less_0_iff_less)
qed

section \<open>Overflow and underflow\<close>

lemma round_double_overflow:
  assumes "2 ^ 1024 \<le> x"
  shows "round_double x = PInf"
proof -
  have p: "(2::real) powi 1024 = 2 ^ 1024" by simp
  have x: "0 < x" using assms by (rule less_le_trans [rotated]) simp
  have "2 powi 1024 \<le> x" unfolding p by (rule assms)
  then have "2 powi 1024 \<le> round_magnitude x"
    by (rule round_magnitude_lower) simp
  then show ?thesis using x by (simp add: round_double_def)
qed

lemma round_double_underflow_pos:
  assumes "0 < x" "x < 2 powi (- 1075)"
  shows "round_double x = Fin 0"
proof -
  have "(2::real) powi (- 1075) \<le> 2 powi (- 1074)" by (simp only: powi_le_iff)
  then have "x \<le> 2 powi (- 1074)" using assms(2) by linarith
  from ulp_exponent_le [OF assms(1) this] ulp_exponent_ge [of x]
  have e: "ulp_exponent x = - 1074" by simp
  have "(2::real) powi (- 1075) = 2 powi (- 1074) / 2"
    using power_int_add [of "2::real" "- 1075" 1] by simp
  then have "x / 2 powi (- 1074) < 1 / 2"
    using assms(2) by (simp add: pos_divide_less_eq)
  moreover have "0 < x / 2 powi (- 1074)" using assms(1) by simp
  ultimately have "round_half_even (x / 2 powi (- 1074)) = 0"
    unfolding round_half_even_def Let_def
    proof -
      assume a: "x / 2 powi (- 1074) < 1 / 2" "0 < x / 2 powi (- 1074)"
      then have "\<lfloor>x / 2 powi (- 1074)\<rfloor> = 0" by linarith
      with a show "(if x / 2 powi (- 1074) - of_int \<lfloor>x / 2 powi (- 1074)\<rfloor> < 1 / 2
          then \<lfloor>x / 2 powi (- 1074)\<rfloor>
          else if 1 / 2 < x / 2 powi (- 1074) - of_int \<lfloor>x / 2 powi (- 1074)\<rfloor>
          then \<lfloor>x / 2 powi (- 1074)\<rfloor> + 1
          else if even \<lfloor>x / 2 powi (- 1074)\<rfloor> then \<lfloor>x / 2 powi (- 1074)\<rfloor>
          else \<lfloor>x / 2 powi (- 1074)\<rfloor> + 1) = 0"
        by simp
    qed
  then have "round_magnitude x = 0" by (simp add: round_magnitude_def e)
  then show ?thesis using assms(1) by (simp add: round_double_def)
qed

lemma round_double_power_of_two:
  assumes "- 1074 \<le> e" "e \<le> 971"
  shows "round_double (2 powi e) = Fin (2 powi e)"
  using round_double_exact [of 1 e] assms by simp

section \<open>The residual in a concrete scenario\<close>

text \<open>
  C8. Point A = (0,0,0) in frame A, point B = (1,0,0) in frame B, the two frames
  coincident (so that point A has the same coordinates in frame B), target distance 0.5:
  \<open>EvalFull\<close> returns 0.5. With point B at (0.5,0,0) it returns 0.
\<close>

theorem EvalFull_concrete_scenario:
  assumes "CalcPointsPositions pl ctxt fA (fin_vec [0, 0, 0]) fB = fin_vec [0, 0, 0]"
  shows "EvalFull (DistanceEvaluator pl (fin_vec [0, 0, 0]) fA (fin_vec [1, 0, 0]) fB
           (Fin 0.5)) ctxt = [Fin 0.5]
       \<and> EvalFull (DistanceEvaluator pl (fin_vec [0, 0, 0]) fA (fin_vec [0.5, 0, 0]) fB
           (Fin 0.5)) ctxt = [Fin 0]"
proof -
  have root: "sqrt (1/4) = 1/2"
    using real_sqrt_abs [of "1/2"] by (simp add: power2_eq_square)
  have "EvalFull (DistanceEvaluator pl (fin_vec [0, 0, 0]) fA (fin_vec [1, 0, 0]) fB
           (Fin 0.5)) ctxt = [Fin 0.5]"
    using assms
    by (simp add: EvalFull_def DistanceEvaluator_def Let_def vec_minus_def fin_vec_def
        norm_vec_def squaredNorm_def dot_def minus_scalar_def)
  moreover have "EvalFull (DistanceEvaluator pl (fin_vec [0, 0, 0]) fA (fin_vec [0.5, 0, 0]) fB
           (Fin 0.5)) ctxt = [Fin 0]"
    using assms
    by (simp add: EvalFull_def DistanceEvaluator_def Let_def vec_minus_def fin_vec_def
        norm_vec_def squaredNorm_def dot_def minus_scalar_def root)
  ultimately show ?thesis by simp
qed

theorem EvalFull_concrete_scenario_witness:
  "CalcPointsPositions point_mass_plant (at_rest [0, 0, 0] [0, 0, 0]) Body_A
       (fin_vec [0, 0, 0]) Body_B = fin_vec [0, 0, 0]
   \<and> EvalFull (DistanceEvaluator point_mass_plant (fin_vec [0, 0, 0]) Body_A
         (fin_vec [1, 0, 0]) Body_B (Fin 0.5)) (at_rest [0, 0, 0] [0, 0, 0]) = [Fin 0.5]
   \<and> EvalFull (DistanceEvaluator point_mass_plant (fin_vec [0, 0, 0]) Body_A
         (fin_vec [0.5, 0, 0]) Body_B (Fin 0.5)) (at_rest [0, 0, 0] [0, 0, 0]) = [Fin 0]"
proof -
  have h: "CalcPointsPositions point_mass_plant (at_rest [0, 0, 0] [0, 0, 0]) Body_A
       (fin_vec [0, 0, 0]) Body_B = fin_vec [0, 0, 0]"
    by (simp add: point_mass_plant_def at_rest_def fin_vec_def)
  from EvalFull_concrete_scenario [OF h] h show ?thesis by simp
qed

section \<open>Dimensions\<close>

lemma length_3_explicit: "length xs = 3 \<Longrightarrow> \<exists>a b c. xs = [a, b, c]"
  by (cases xs; cases "tl xs"; cases "tl (tl xs)") auto

lemma length_transpose_3:
  assumes "length J = 3" and "\<forall>row\<in>set J. length row = n"
  shows "length (transpose J) = n"
proof -
  from assms(1) obtain a b c where "J = [a, b, c]"
    using length_3_explicit by blast
  with assms(2) show ?thesis by (simp add: length_transpose)
qed

text \<open>
  C7. The constructor sets the row count to 1, and no evaluation returns a changed
  evaluator. \<open>EvalFull\<close> returns a vector of length 1. \<open>EvalFullJacobian\<close> returns a matrix
  of 1 row, and, the plant's Jacobian being 3 by \<open>num_velocities\<close> (the shape the source
  allocates for it), that row has \<open>num_velocities\<close> columns.
\<close>

theorem DistanceEvaluator_dimensions:
  assumes "length (CalcJacobianTranslationalVelocity pl ctxt kV fA a fB fB) = 3"
    and "\<forall>row\<in>set (CalcJacobianTranslationalVelocity pl ctxt kV fA a fB fB).
           length row = num_velocities pl"
  shows "evaluator_length (DistanceEvaluator pl a fA b fB d) = 1
       \<and> length (EvalFull (DistanceEvaluator pl a fA b fB d) ctxt) = 1
       \<and> length (EvalFullJacobian (DistanceEvaluator pl a fA b fB d) ctxt) = 1
       \<and> (\<forall>row\<in>set (EvalFullJacobian (DistanceEvaluator pl a fA b fB d) ctxt).
             length row = num_velocities pl)"
  using length_transpose_3 [OF assms]
  by (simp add: DistanceEvaluator_def EvalFull_def EvalFullJacobian_def Let_def
      vec_div_def transpose_times_def)

theorem DistanceEvaluator_dimensions_witness:
  "map length (CalcJacobianTranslationalVelocity point_mass_plant (at_rest [4, 0, 3] [0, 0, 0])
       kV Body_A (fin_vec [0, 0, 0]) Body_B Body_B) = [6, 6, 6]
   \<and> num_velocities point_mass_plant = 6
   \<and> evaluator_length (DistanceEvaluator point_mass_plant (fin_vec [0, 0, 0]) Body_A
         (fin_vec [0, 0, 0]) Body_B (Fin 2)) = 1
   \<and> map length (EvalFullJacobian (DistanceEvaluator point_mass_plant (fin_vec [0, 0, 0])
         Body_A (fin_vec [0, 0, 0]) Body_B (Fin 2)) (at_rest [4, 0, 3] [0, 0, 0])) = [6]"
proof -
  let ?J = "CalcJacobianTranslationalVelocity point_mass_plant
       (at_rest [4, 0, 3] [0, 0, 0]) kV Body_A (fin_vec [0, 0, 0]) Body_B Body_B"
  let ?ev = "DistanceEvaluator point_mass_plant (fin_vec [0, 0, 0]) Body_A
         (fin_vec [0, 0, 0]) Body_B (Fin 2)"
  have shape: "map length ?J = [6, 6, 6]"
    by (simp add: point_mass_plant_def fin_mat_def fin_vec_def)
  have nv: "num_velocities point_mass_plant = 6"
    by (simp add: point_mass_plant_def)
  have h1: "length ?J = 3"
    using arg_cong [OF shape, of length] by simp
  have h2: "\<forall>row\<in>set ?J. length row = num_velocities point_mass_plant"
  proof
    fix row assume "row \<in> set ?J"
    then have "length row \<in> set (map length ?J)" by simp
    then show "length row = num_velocities point_mass_plant"
      by (simp only: shape nv) simp
  qed
  note dims = DistanceEvaluator_dimensions [OF h1 h2, of "fin_vec [0, 0, 0]" "Fin 2"]
  from dims have one: "length (EvalFullJacobian ?ev (at_rest [4, 0, 3] [0, 0, 0])) = 1"
    by simp
  then obtain row where row: "EvalFullJacobian ?ev (at_rest [4, 0, 3] [0, 0, 0]) = [row]"
    by (cases "EvalFullJacobian ?ev (at_rest [4, 0, 3] [0, 0, 0])") auto
  with dims nv have "length row = 6" by simp
  with row shape nv dims show ?thesis by simp
qed

section \<open>Coincident points\<close>

lemma plus_NaN [simp]: "a + NaN = NaN" "NaN + a = NaN"
  by (cases a; simp)+

lemma minus_NaN [simp]: "a - NaN = NaN" "NaN - a = NaN"
  by (simp_all add: minus_scalar_def)

lemma zero_times: "Fin 0 * y = Fin 0 \<or> Fin 0 * y = NaN"
  by (cases y) simp_all

lemma zero_or_NaN_div_zero: "x = Fin 0 \<or> x = NaN \<Longrightarrow> x / Fin 0 = NaN"
  by auto

lemma foldl_zero_or_NaN:
  "acc = Fin 0 \<or> acc = NaN \<Longrightarrow> \<forall>x\<in>set xs. x = Fin 0 \<or> x = NaN \<Longrightarrow>
     foldl (+) acc xs = Fin 0 \<or> foldl (+) acc xs = NaN"
proof (induction xs arbitrary: acc)
  case Nil
  then show ?case by simp
next
  case (Cons x xs)
  have "acc + x = Fin 0 \<or> acc + x = NaN"
    using Cons.prems by auto
  then show ?case
    using Cons.IH [of "acc + x"] Cons.prems(2) by simp
qed

lemma sum_zero_or_NaN:
  "\<forall>x\<in>set xs. x = Fin 0 \<or> x = NaN \<Longrightarrow> sum_scalars xs = Fin 0 \<or> sum_scalars xs = NaN"
  by (cases xs) (simp_all add: zero_scalar_def foldl_zero_or_NaN)

lemma dot_zero_vector:
  assumes "\<forall>x\<in>set a. x = Fin 0"
  shows "dot a c = Fin 0 \<or> dot a c = NaN"
proof -
  have "\<forall>x\<in>set (map2 (*) a c). x = Fin 0 \<or> x = NaN"
  proof
    fix x assume "x \<in> set (map2 (*) a c)"
    then obtain u w where "(u, w) \<in> set (zip a c)" "x = u * w" by auto
    then have "u \<in> set a" by (meson set_zip_leftD)
    with assms \<open>x = u * w\<close> show "x = Fin 0 \<or> x = NaN"
      using zero_times [of w] by simp
  qed
  then show ?thesis unfolding dot_def by (rule sum_zero_or_NaN)
qed

lemma vec_minus_self_eq: "vec_minus (fin_vec p) (fin_vec p) = replicate (length p) (Fin 0)"
  by (induction p) (simp_all add: vec_minus_def fin_vec_def minus_scalar_def)

lemma vec_minus_self: "x \<in> set (vec_minus (fin_vec p) (fin_vec p)) \<Longrightarrow> x = Fin 0"
  by (simp add: vec_minus_self_eq split: if_splits)

lemma foldl_zeros: "foldl (+) (Fin 0) (replicate n (Fin 0)) = Fin 0"
  by (induction n) simp_all

lemma norm_vec_minus_self: "norm_vec (vec_minus (fin_vec p) (fin_vec p)) = Fin 0"
proof -
  have "map2 (*) (replicate n (Fin 0)) (replicate n (Fin 0)) = replicate n (Fin 0)" for n
    by (induction n) simp_all
  then have "squaredNorm (replicate n (Fin 0)) = Fin 0" for n
    by (cases n) (simp_all add: squaredNorm_def dot_def zero_scalar_def foldl_zeros)
  then show ?thesis by (simp add: norm_vec_def vec_minus_self_eq)
qed

text \<open>
  C6. Neither function tests the norm before dividing by it. When the two points coincide
  the relative position is the zero vector, its norm is 0, every numerator is 0 or \<open>NaN\<close>,
  and the quotient is \<open>NaN\<close>: \<open>EvalFullJacobian\<close> returns a row of \<open>NaN\<close>, one for each column
  of the plant's Jacobian, and \<open>EvalFullJacobianDotTimesV\<close> returns \<open>NaN\<close>, whatever the
  Jacobians, accelerations and velocities are. No error is raised and no value is clamped.
\<close>

theorem coincident_points_give_NaN:
  assumes "CalcPointsPositions (plant ev) ctxt (frame_A ev) (pt_A ev) (frame_B ev) = fin_vec p"
    and "pt_B ev = fin_vec p"
    and "CalcPointsPositions (plant ev) ctxt (frame_A ev) (pt_A ev) (world_frame (plant ev))
           = fin_vec q"
    and "CalcPointsPositions (plant ev) ctxt (frame_B ev) (pt_B ev) (world_frame (plant ev))
           = fin_vec q"
  shows "EvalFullJacobian ev ctxt =
           [replicate (length (transpose (CalcJacobianTranslationalVelocity (plant ev) ctxt kV
              (frame_A ev) (pt_A ev) (frame_B ev) (frame_B ev)))) NaN]
       \<and> EvalFullJacobianDotTimesV ev ctxt = [NaN]"
proof -
  let ?d = "vec_minus (fin_vec p) (fin_vec p)"
  let ?e = "vec_minus (fin_vec q) (fin_vec q)"
  have entry: "dot ?d c / norm_vec ?d = NaN" for c
    using dot_zero_vector [of ?d c] vec_minus_self [of _ p]
    by (simp only: norm_vec_minus_self) (blast intro: zero_or_NaN_div_zero)
  have "map (\<lambda>c. dot ?d c / norm_vec ?d) cs = replicate (length cs) NaN" for cs
    by (induction cs) (simp_all only: entry list.map list.size replicate.simps
        replicate_Suc add_Suc_right add_0_right)
  then have jac: "EvalFullJacobian ev ctxt =
           [replicate (length (transpose (CalcJacobianTranslationalVelocity (plant ev) ctxt kV
              (frame_A ev) (pt_A ev) (frame_B ev) (frame_B ev)))) NaN]"
    using assms(1,2) 
    by (simp add: EvalFullJacobian_def Let_def vec_div_def transpose_times_def o_def)
  have mid: "dot ?e c / norm_vec ?e = NaN" for c
    using dot_zero_vector [of ?e c] vec_minus_self [of _ q]
    by (simp only: norm_vec_minus_self) (blast intro: zero_or_NaN_div_zero)
  have "EvalFullJacobianDotTimesV ev ctxt = [NaN]"
    using assms(3,4)
    by (simp add: EvalFullJacobianDotTimesV_def Let_def mid)
  with jac show ?thesis by simp
qed

theorem coincident_points_give_NaN_witness:
  "CalcPointsPositions point_mass_plant (at_rest [1, 2, 3] [1, 2, 3]) Body_A (fin_vec [0, 0, 0])
       Body_B = fin_vec [0, 0, 0]
   \<and> CalcPointsPositions point_mass_plant (at_rest [1, 2, 3] [1, 2, 3]) Body_A
       (fin_vec [0, 0, 0]) World = fin_vec [1, 2, 3]
   \<and> CalcPointsPositions point_mass_plant (at_rest [1, 2, 3] [1, 2, 3]) Body_B
       (fin_vec [0, 0, 0]) World = fin_vec [1, 2, 3]
   \<and> EvalFullJacobian (DistanceEvaluator point_mass_plant (fin_vec [0, 0, 0]) Body_A
         (fin_vec [0, 0, 0]) Body_B (Fin 2)) (at_rest [1, 2, 3] [1, 2, 3])
       = [[NaN, NaN, NaN, NaN, NaN, NaN]]
   \<and> EvalFullJacobianDotTimesV (DistanceEvaluator point_mass_plant (fin_vec [0, 0, 0]) Body_A
         (fin_vec [0, 0, 0]) Body_B (Fin 2)) (at_rest [1, 2, 3] [1, 2, 3]) = [NaN]"
proof -
  let ?ev = "DistanceEvaluator point_mass_plant (fin_vec [0, 0, 0]) Body_A
         (fin_vec [0, 0, 0]) Body_B (Fin 2)"
  let ?c = "at_rest [1, 2, 3] [1, 2, 3]"
  have h1: "CalcPointsPositions (plant ?ev) ?c (frame_A ?ev) (pt_A ?ev) (frame_B ?ev)
      = fin_vec [0, 0, 0]"
    by (simp add: DistanceEvaluator_def point_mass_plant_def at_rest_def fin_vec_def
        vec_minus_def minus_scalar_def)
  have h2: "pt_B ?ev = fin_vec [0, 0, 0]"
    by (simp add: DistanceEvaluator_def)
  have h3: "CalcPointsPositions (plant ?ev) ?c (frame_A ?ev) (pt_A ?ev)
      (world_frame (plant ?ev)) = fin_vec [1, 2, 3]"
    by (simp add: DistanceEvaluator_def point_mass_plant_def at_rest_def fin_vec_def
        vec_minus_def minus_scalar_def)
  have h4: "CalcPointsPositions (plant ?ev) ?c (frame_B ?ev) (pt_B ?ev)
      (world_frame (plant ?ev)) = fin_vec [1, 2, 3]"
    by (simp add: DistanceEvaluator_def point_mass_plant_def at_rest_def fin_vec_def
        vec_minus_def minus_scalar_def)
  have cols: "length (transpose (CalcJacobianTranslationalVelocity (plant ?ev) ?c kV
      (frame_A ?ev) (pt_A ?ev) (frame_B ?ev) (frame_B ?ev))) = 6"
    by (simp add: DistanceEvaluator_def point_mass_plant_def fin_mat_def fin_vec_def
        mat_minus_def vec_minus_def length_transpose)
  from coincident_points_give_NaN [OF h1 h2 h3 h4]
  have "EvalFullJacobian ?ev ?c = [[NaN, NaN, NaN, NaN, NaN, NaN]]
      \<and> EvalFullJacobianDotTimesV ?ev ?c = [NaN]"
    by (simp only: cols) (simp add: eval_nat_numeral)
  with h1 h3 h4 show ?thesis by (simp add: DistanceEvaluator_def point_mass_plant_def)
qed

section \<open>The residual\<close>

lemma norm_vec_double:
  assumes "norm_vec xs = Fin p"
  shows "\<exists>p0. round_double p0 = Fin p"
  using assms by (cases "squaredNorm xs") (auto simp: norm_vec_def split: if_splits)

lemma residual_on_axis:
  assumes "0 \<le> x"
  shows "residual_spec [x, 0, 0] [0, 0, 0] t = x - t"
  using assms by (simp add: residual_spec_def Euclidean_norm_3)

text \<open>
  Two point masses on the first axis, the attachment points at the bodies' origins: the
  residual as the source computes it, the square of the separation rounded.
\<close>

lemma EvalFull_on_axis:
  assumes "round_double x = Fin x"
  shows "EvalFull (DistanceEvaluator point_mass_plant (fin_vec [0, 0, 0]) Body_A
      (fin_vec [0, 0, 0]) Body_B (Fin t)) (at_rest [x, 0, 0] [0, 0, 0])
    = [sqrt_scalar (round_double (x * x) + Fin 0 + Fin 0) - Fin t]"
  by (simp add: EvalFull_def DistanceEvaluator_def point_mass_plant_def at_rest_def fin_vec_def
      norm_vec_def squaredNorm_def dot_def vec_minus_def minus_scalar_def assms)

text \<open>
  C4, as the specification states it, fails for doubles. Two points \<open>2 ^ 512\<close> apart with
  target 0: the square of the separation overflows and the residual is \<open>+\<infinity>\<close>, not the
  separation. Two points \<open>2 ^ - 600\<close> apart with target 0: the square underflows and the
  residual is 0, although the points are not at the target separation.
\<close>

theorem EvalFull_overflow_underflow:
  "EvalFull (DistanceEvaluator point_mass_plant (fin_vec [0, 0, 0]) Body_A
      (fin_vec [0, 0, 0]) Body_B (Fin 0)) (at_rest [2 powi 512, 0, 0] [0, 0, 0]) = [PInf]
   \<and> residual_spec [2 powi 512, 0, 0] [0, 0, 0] 0 = 2 powi 512
   \<and> EvalFull (DistanceEvaluator point_mass_plant (fin_vec [0, 0, 0]) Body_A
      (fin_vec [0, 0, 0]) Body_B (Fin 0)) (at_rest [2 powi (- 600), 0, 0] [0, 0, 0]) = [Fin 0]
   \<and> residual_spec [2 powi (- 600), 0, 0] [0, 0, 0] 0 = 2 powi (- 600)
   \<and> (0::real) < 2 powi (- 600)"
proof -
  have a: "round_double (2 powi 512) = Fin (2 powi 512)"
    by (rule round_double_power_of_two) simp_all
  have "(2::real) powi 512 * 2 powi 512 = 2 ^ 1024"
    using power_int_add [of "2::real" 512 512] by simp
  then have b: "round_double (2 powi 512 * 2 powi 512) = PInf"
    by (intro round_double_overflow) simp
  have c: "round_double (2 powi (- 600)) = Fin (2 powi (- 600))"
    by (rule round_double_power_of_two) simp_all
  have "(2::real) powi (- 600) * 2 powi (- 600) = 2 powi (- 1200)"
    using power_int_add [of "2::real" "- 600" "- 600"] by simp
  moreover have "(2::real) powi (- 1200) < 2 powi (- 1075)" by (simp only: powi_less_iff)
  ultimately have d: "round_double (2 powi (- 600) * 2 powi (- 600)) = Fin 0"
    by (intro round_double_underflow_pos) simp_all
  have z: "Fin 0 + Fin 0 = Fin 0" "PInf + Fin 0 = PInf" "sqrt_scalar PInf = PInf"
    "sqrt_scalar (Fin 0) = Fin 0" "PInf - Fin 0 = PInf" "Fin 0 - Fin 0 = Fin 0"
    by (simp_all add: minus_scalar_def)
  have 1: "EvalFull (DistanceEvaluator point_mass_plant (fin_vec [0, 0, 0]) Body_A
      (fin_vec [0, 0, 0]) Body_B (Fin 0)) (at_rest [2 powi 512, 0, 0] [0, 0, 0]) = [PInf]"
    by (simp only: EvalFull_on_axis [OF a] b z)
  have 2: "EvalFull (DistanceEvaluator point_mass_plant (fin_vec [0, 0, 0]) Body_A
      (fin_vec [0, 0, 0]) Body_B (Fin 0)) (at_rest [2 powi (- 600), 0, 0] [0, 0, 0]) = [Fin 0]"
    by (simp only: EvalFull_on_axis [OF c] d z)
  have "residual_spec [2 powi 512, 0, 0] [0, 0, 0] 0 = 2 powi 512 - 0"
    by (rule residual_on_axis) simp
  then have 3: "residual_spec [2 powi 512, 0, 0] [0, 0, 0] 0 = 2 powi 512"
    by (simp only: diff_zero)
  have "residual_spec [2 powi (- 600), 0, 0] [0, 0, 0] 0 = 2 powi (- 600) - 0"
    by (rule residual_on_axis) simp
  then have 4: "residual_spec [2 powi (- 600), 0, 0] [0, 0, 0] 0 = 2 powi (- 600)"
    by (simp only: diff_zero)
  have 5: "(0::real) < 2 powi (- 600)" by simp
  show ?thesis by (intro conjI 1 2 3 4 5)
qed

text \<open>
  C4, for doubles. Point A has the coordinates \<open>a\<close> in frame B and point B the coordinates
  \<open>b\<close>; every coordinate difference is 0 or between \<open>2 ^ - 500\<close> and \<open>2 ^ 500\<close> in magnitude,
  and the target \<open>t\<close> is a double of magnitude at most \<open>2 ^ 500\<close>. Then the computed norm
  \<open>phi\<close> is finite and within \<open>7 * 2 ^ - 53\<close> of the Euclidean norm \<open>d\<close>, relatively;
  \<open>EvalFull\<close> returns one finite entry \<open>r\<close>, within \<open>(7 * d + \<bar>d - t\<bar>) * 2 ^ - 53\<close> of
  \<open>d - t\<close>; and \<open>r\<close> is zero, positive or negative exactly when the computed norm
  equals, exceeds or is below the target.
\<close>

theorem EvalFull_residual:
  assumes pos: "CalcPointsPositions (plant ev) ctxt (frame_A ev) (pt_A ev) (frame_B ev)
           = fin_vec [a0, a1, a2]"
    and ptB: "pt_B ev = fin_vec [b0, b1, b2]"
    and dist: "distance ev = Fin t"
    and t: "round_double t = Fin t" "\<bar>t\<bar> \<le> 2 powi 500"
    and range: "in_range (- 500) 500 (a0 - b0)" "in_range (- 500) 500 (a1 - b1)"
      "in_range (- 500) 500 (a2 - b2)"
  shows "\<exists>phi r.
      norm_vec (vec_minus (fin_vec [a0, a1, a2]) (fin_vec [b0, b1, b2])) = Fin phi
    \<and> EvalFull ev ctxt = [Fin r]
    \<and> \<bar>phi - Euclidean_norm (map2 (-) [a0, a1, a2] [b0, b1, b2])\<bar>
        \<le> 7 * Euclidean_norm (map2 (-) [a0, a1, a2] [b0, b1, b2]) / 2 ^ 53
    \<and> \<bar>r - residual_spec [a0, a1, a2] [b0, b1, b2] t\<bar>
        \<le> (7 * Euclidean_norm (map2 (-) [a0, a1, a2] [b0, b1, b2])
            + \<bar>residual_spec [a0, a1, a2] [b0, b1, b2] t\<bar>) / 2 ^ 53
    \<and> (r = 0 \<longleftrightarrow> phi = t) \<and> (0 < r \<longleftrightarrow> t < phi) \<and> (r < 0 \<longleftrightarrow> phi < t)"
proof -
  let ?d = "Euclidean_norm [a0 - b0, a1 - b1, a2 - b2]"
  from norm_vec_error [OF range] obtain p where
    p: "norm_vec (vec_minus (fin_vec [a0, a1, a2]) (fin_vec [b0, b1, b2])) = Fin p"
      "0 \<le> p" "in_range (- 500) 501 p" "close (rounding_error 6) p ?d"
    by blast
  from norm_vec_double [OF p(1)] obtain p0 where p0: "round_double p0 = Fin p" by blast
  have d: "0 \<le> ?d" by (simp add: Euclidean_norm_3)
  have "p \<le> 2 powi 501" using p(2,3) by (auto simp: in_range_def)
  then have "\<bar>p - t\<bar> \<le> 2 powi 501 + 2 powi 500" using p(2) t(2) by linarith
  also have "\<dots> \<le> 2 powi 1023" by simp
  finally have "\<bar>p - t\<bar> \<le> 2 powi 1023" .
  from round_difference_of_doubles [OF p0 t(1) this] obtain r where
    r: "Fin p - Fin t = Fin r" "close (rounding_error 1) r (p - t)"
      "0 < r \<longleftrightarrow> t < p" "r < 0 \<longleftrightarrow> p < t"
    by blast
  have ev: "EvalFull ev ctxt = [Fin r]"
    by (simp add: EvalFull_def pos ptB dist p(1) r(1))
  define u :: real where "u = 1 / 2 ^ 53"
  define E where "E = rounding_error 6 * ?d"
  have u: "0 \<le> u" by (simp add: u_def)
  have h2: "\<bar>p - ?d\<bar> \<le> E"
    using p(4) d by (simp add: close_def E_def)
  have "rounding_error 6 * ?d \<le> 7 / 2 ^ 53 * ?d"
    by (rule mult_right_mono [OF rounding_error_6 d])
  with h2 have A: "\<bar>p - ?d\<bar> \<le> 7 * ?d / 2 ^ 53" by (simp add: E_def)
  have h1: "\<bar>r - (p - t)\<bar> \<le> u * \<bar>p - t\<bar>"
    using r(2) by (simp add: close_def rounding_error_Suc_0 u_def)
  have "(1 + rounding_error 1) * (1 + rounding_error 6) = 1 + rounding_error 7"
    by (simp only: rounding_error_compose) simp
  then have "rounding_error 6 + u * rounding_error 6 = rounding_error 7 - u"
    by (simp add: rounding_error_Suc_0 algebra_simps u_def)
  also have "\<dots> \<le> 7 * u" using rounding_error_7 by (simp add: u_def)
  finally have "(rounding_error 6 + u * rounding_error 6) * ?d \<le> 7 * u * ?d"
    by (rule mult_right_mono [OF _ d])
  then have h3: "E + u * E \<le> 7 * u * ?d"
    by (simp add: algebra_simps E_def)
  have s1: "\<bar>p - t\<bar> \<le> \<bar>?d - t\<bar> + E" using h2 by linarith
  have "u * \<bar>p - t\<bar> \<le> u * (\<bar>?d - t\<bar> + E)"
    by (rule mult_left_mono [OF s1 u])
  then have s2: "u * \<bar>p - t\<bar> \<le> u * \<bar>?d - t\<bar> + u * E"
    by (simp add: algebra_simps)
  have "\<bar>r - (?d - t)\<bar> \<le> \<bar>r - (p - t)\<bar> + \<bar>p - ?d\<bar>" by linarith
  also have "\<dots> \<le> u * \<bar>p - t\<bar> + E" using h1 h2 by linarith
  also have "\<dots> \<le> u * \<bar>?d - t\<bar> + (E + u * E)" using s2 by linarith
  also have "\<dots> \<le> u * \<bar>?d - t\<bar> + 7 * u * ?d" using h3 by linarith
  also have "\<dots> = (7 * ?d + \<bar>?d - t\<bar>) / 2 ^ 53"
    by (simp add: u_def algebra_simps add_divide_distrib)
  finally have B: "\<bar>r - (?d - t)\<bar> \<le> (7 * ?d + \<bar>?d - t\<bar>) / 2 ^ 53" .
  have "r = 0 \<longleftrightarrow> p = t" using r(3,4) by linarith
  with p(1) ev A B r(3,4) show ?thesis
    by (simp add: residual_spec_def)
qed

theorem EvalFull_residual_witness:
  "CalcPointsPositions point_mass_plant (at_rest [4, 0, 3] [0, 0, 0]) Body_A
      (fin_vec [0, 0, 0]) Body_B = fin_vec [4, 0, 3]
   \<and> round_double 2 = Fin 2 \<and> \<bar>2 :: real\<bar> \<le> 2 powi 500
   \<and> in_range (- 500) 500 (4 - 0) \<and> in_range (- 500) 500 (0 - 0)
   \<and> in_range (- 500) 500 (3 - 0)
   \<and> (\<exists>phi r.
      norm_vec (vec_minus (fin_vec [4, 0, 3]) (fin_vec [0, 0, 0])) = Fin phi
    \<and> EvalFull (DistanceEvaluator point_mass_plant (fin_vec [0, 0, 0]) Body_A
         (fin_vec [0, 0, 0]) Body_B (Fin 2)) (at_rest [4, 0, 3] [0, 0, 0]) = [Fin r]
    \<and> \<bar>phi - Euclidean_norm (map2 (-) [4, 0, 3] [0, 0, 0])\<bar>
        \<le> 7 * Euclidean_norm (map2 (-) [4, 0, 3] [0, 0, 0]) / 2 ^ 53
    \<and> \<bar>r - residual_spec [4, 0, 3] [0, 0, 0] 2\<bar>
        \<le> (7 * Euclidean_norm (map2 (-) [4, 0, 3] [0, 0, 0])
            + \<bar>residual_spec [4, 0, 3] [0, 0, 0] 2\<bar>) / 2 ^ 53
    \<and> (r = 0 \<longleftrightarrow> phi = 2) \<and> (0 < r \<longleftrightarrow> 2 < phi) \<and> (r < 0 \<longleftrightarrow> phi < 2))"
proof -
  let ?ev = "DistanceEvaluator point_mass_plant (fin_vec [0, 0, 0]) Body_A
         (fin_vec [0, 0, 0]) Body_B (Fin 2)"
  let ?c = "at_rest [4, 0, 3] [0, 0, 0]"
  have pos: "CalcPointsPositions (plant ?ev) ?c (frame_A ?ev) (pt_A ?ev) (frame_B ?ev)
      = fin_vec [4, 0, 3]"
    by (simp add: DistanceEvaluator_def point_mass_plant_def at_rest_def fin_vec_def)
  have pos': "CalcPointsPositions point_mass_plant ?c Body_A (fin_vec [0, 0, 0]) Body_B
      = fin_vec [4, 0, 3]"
    using pos by (simp add: DistanceEvaluator_def)
  have ptB: "pt_B ?ev = fin_vec [0, 0, 0]" and dist: "distance ?ev = Fin 2"
    by (simp_all add: DistanceEvaluator_def)
  have t: "round_double 2 = Fin 2" "\<bar>2 :: real\<bar> \<le> 2 powi 500" by simp_all
  have range: "in_range (- 500) 500 (4 - 0)" "in_range (- 500) 500 (0 - 0)"
    "in_range (- 500) 500 (3 - 0)"
    by (simp_all add: in_range_def)
  from EvalFull_residual [OF pos ptB dist t range]
  show ?thesis
    by (intro conjI pos' t range)
qed


end
